theory Spec2Isabelle
  imports Main "HOL-Library.Word" "HOL-Library.Sublist"
begin

unbundle bit_operations_syntax

section \<open>LocationModel: \<open>CseLocation\<close> (TypeAnalysisTransform.h, second document)\<close>

text \<open>
  \<^verbatim>\<open>size_t\<close> and object pointers are 64-bit values. A
  \<^verbatim>\<open>const DexField*\<close> is modelled by its address. Comparison on
  words is unsigned, as it is for an enum whose underlying type is
  \<^verbatim>\<open>size_t\<close>.
\<close>

type_synonym size_t = "64 word"
type_synonym DexField_ptr = "64 word"

text \<open>
  \<^verbatim>\<open>enum CseSpecialLocations : size_t\<close>, enumerators in declaration
  order.
\<close>

datatype CseSpecialLocations =
    GENERAL_MEMORY_BARRIER
  | ARRAY_COMPONENT_TYPE_INT
  | ARRAY_COMPONENT_TYPE_BYTE
  | ARRAY_COMPONENT_TYPE_CHAR
  | ARRAY_COMPONENT_TYPE_WIDE
  | ARRAY_COMPONENT_TYPE_SHORT
  | ARRAY_COMPONENT_TYPE_OBJECT
  | ARRAY_COMPONENT_TYPE_BOOLEAN
  | END

text \<open>The numeric value of each enumerator: consecutive from 0.\<close>

fun enum_value :: "CseSpecialLocations \<Rightarrow> size_t" where
  "enum_value GENERAL_MEMORY_BARRIER = 0"
| "enum_value ARRAY_COMPONENT_TYPE_INT = 1"
| "enum_value ARRAY_COMPONENT_TYPE_BYTE = 2"
| "enum_value ARRAY_COMPONENT_TYPE_CHAR = 3"
| "enum_value ARRAY_COMPONENT_TYPE_WIDE = 4"
| "enum_value ARRAY_COMPONENT_TYPE_SHORT = 5"
| "enum_value ARRAY_COMPONENT_TYPE_OBJECT = 6"
| "enum_value ARRAY_COMPONENT_TYPE_BOOLEAN = 7"
| "enum_value END = 8"

text \<open>
  \<^verbatim>\<open>struct CseLocation { union { const DexField* field; CseSpecialLocations
  special_location; }; }\<close>: one storage cell, read through either member.
\<close>

record CseLocation =
  cell :: size_t

definition field :: "CseLocation \<Rightarrow> DexField_ptr" where
  "field l = cell l"

definition special_location :: "CseLocation \<Rightarrow> size_t" where
  "special_location l = cell l"

text \<open>The two constructors.\<close>

definition CseLocation_of_field :: "DexField_ptr \<Rightarrow> CseLocation" where
  "CseLocation_of_field f = \<lparr>cell = f\<rparr>"

definition CseLocation_of_special :: "CseSpecialLocations \<Rightarrow> CseLocation" where
  "CseLocation_of_special sl = \<lparr>cell = enum_value sl\<rparr>"

text \<open>
  \<^verbatim>\<open>operator==\<close>, \<^verbatim>\<open>operator!=\<close>
\<close>

definition loc_eq :: "CseLocation \<Rightarrow> CseLocation \<Rightarrow> bool" where
  "loc_eq a b = (field a = field b)"

definition loc_neq :: "CseLocation \<Rightarrow> CseLocation \<Rightarrow> bool" where
  "loc_neq a b = (\<not> loc_eq a b)"

text \<open>
  \<^verbatim>\<open>operator<\<close>. \<^verbatim>\<open>dexfields_comparator\<close> is
  declared outside the two source files; it is the parameter \<open>cmp\<close>.
\<close>

definition loc_less ::
  "(DexField_ptr \<Rightarrow> DexField_ptr \<Rightarrow> bool) \<Rightarrow> CseLocation \<Rightarrow> CseLocation \<Rightarrow> bool" where
  "loc_less cmp a b =
     (if special_location a < enum_value END then
        (if special_location b < enum_value END
         then special_location a < special_location b
         else True)
      else if special_location b < enum_value END then False
      else cmp (field a) (field b))"

text \<open>
  The discriminant \<^verbatim>\<open>operator<\<close> uses: a cell below
  \<^verbatim>\<open>END\<close> is read as a special location (``special locations are
  effectively represented as illegal pointer values'').
\<close>

definition in_special_range :: "size_t \<Rightarrow> bool" where
  "in_special_range v = (v < enum_value END)"

text \<open>\<^verbatim>\<open>CseLocationHasher\<close>\<close>

definition CseLocationHasher :: "CseLocation \<Rightarrow> size_t" where
  "CseLocationHasher l = field l"

section \<open>Barrier\<close>

text \<open>
  \<^verbatim>\<open>IROpcode\<close> is declared elsewhere; its values are 16-bit
  (``IROpcode encoded as uint16_t''). The anonymous union of
  \<^verbatim>\<open>field\<close> and \<^verbatim>\<open>method\<close> is one cell.
\<close>

type_synonym IROpcode = "16 word"

record Barrier =
  opcode :: IROpcode
  slot :: size_t

definition Barrier_field :: "Barrier \<Rightarrow> size_t" where
  "Barrier_field b = slot b"

definition Barrier_method :: "Barrier \<Rightarrow> size_t" where
  "Barrier_method b = slot b"

definition barrier_eq :: "Barrier \<Rightarrow> Barrier \<Rightarrow> bool" where
  "barrier_eq a b = (opcode a = opcode b \<and> Barrier_field a = Barrier_field b)"

text \<open>
  \<^verbatim>\<open>b.opcode ^ (size_t)b.field\<close>: the opcode is widened without
  sign.
\<close>

definition BarrierHasher :: "Barrier \<Rightarrow> size_t" where
  "BarrierHasher b = (ucast (opcode b) XOR Barrier_field b)"

section \<open>\<open>should_rename\<close> (RenameClasses.cpp)\<close>

text \<open>
  The three global counters the function increments. They are C
  \<^verbatim>\<open>int\<close>s; the result of the function does not depend on their
  values, so they are unbounded here.
\<close>

record counters =
  match_short :: int
  match_long :: int
  match_inner :: int

text \<open>
  What \<open>should_rename\<close> reads of a \<^verbatim>\<open>DexClass\<close>: the
  characters of its name (up to the terminator) and the answer of
  \<^verbatim>\<open>can_rename(clazz)\<close>, a function of ReachableClasses.h.
\<close>

record DexClass =
  name :: string
  can_rename :: bool

text \<open>
  \<^verbatim>\<open>std::string::c_str\<close> read as a C string: the characters before
  the first NUL.
\<close>

definition c_str :: "string \<Rightarrow> string" where
  "c_str s = takeWhile (\<lambda>c. c \<noteq> CHR 0x00) s"

text \<open>
  \<^verbatim>\<open>strrchr\<close>: the suffix that starts at the last occurrence of
  \<open>c\<close>.
\<close>

fun strrchr :: "string \<Rightarrow> char \<Rightarrow> string option" where
  "strrchr [] c = None"
| "strrchr (x # xs) c =
     (case strrchr xs c of
        Some r \<Rightarrow> Some r
      | None \<Rightarrow> if x = c then Some (x # xs) else None)"

text \<open>
  \<^verbatim>\<open>strstr\<close>: the suffix that starts at the first occurrence of the
  needle.
\<close>

fun strstr :: "string \<Rightarrow> string \<Rightarrow> string option" where
  "strstr [] n = (if n = [] then Some [] else None)"
| "strstr (h # hs) n = (if prefix n (h # hs) then Some (h # hs) else strstr hs n)"

text \<open>
  \<^verbatim>\<open>*++substr\<close>: the character after the one pointed to, the
  terminator at the end.
\<close>

fun next_char :: "string \<Rightarrow> char" where
  "next_char (x # v # r) = v"
| "next_char r = CHR 0x00"

definition is_digit :: "char \<Rightarrow> bool" where
  "is_digit val = ((48::nat) \<le> of_char val \<and> of_char val \<le> (57::nat))"

text \<open>
  The body shared by the two pattern loops: the first pattern found in
  \<open>chstring\<close> bumps a counter by its length and ends the function with true.
\<close>

fun match_patterns :: "string \<Rightarrow> string list \<Rightarrow> counters \<Rightarrow> bool \<times> counters" where
  "match_patterns chstring [] st = (False, st)"
| "match_patterns chstring (p # ps) st =
     (if strstr chstring (c_str p) \<noteq> None then
        (if length p > 1
         then (True, st\<lparr>match_long := match_long st + 1\<rparr>)
         else (True, st\<lparr>match_short := match_short st + 1\<rparr>))
      else match_patterns chstring ps st)"

definition anonymous_check :: "string \<Rightarrow> bool" where
  "anonymous_check chstring =
     (case strrchr chstring (CHR ''$'') of
        None \<Rightarrow> False
      | Some substr \<Rightarrow> is_digit (next_char substr))"

definition should_rename ::
  "DexClass \<Rightarrow> string list \<Rightarrow> string list \<Rightarrow> counters \<Rightarrow> bool \<times> counters" where
  "should_rename clazz pre_patterns post_patterns st =
     (let chstring = name clazz in
      if anonymous_check chstring then (True, st\<lparr>match_inner := match_inner st + 1\<rparr>)
      else
        (case match_patterns chstring pre_patterns st of
           (True, st') \<Rightarrow> (True, st')
         | (False, st') \<Rightarrow>
             if \<not> can_rename clazz then (False, st')
             else match_patterns chstring post_patterns st'))"

text \<open>
  The two early exits in words: the last \<open>$\<close> of the name is directly followed
  by a decimal digit; some pattern occurs in the name.
\<close>

definition dollar_digit_name :: "string \<Rightarrow> bool" where
  "dollar_digit_name s =
     (\<exists>a d r. s = a @ CHR ''$'' # d # r \<and> CHR ''$'' \<notin> set (d # r) \<and> is_digit d)"

definition matches_pattern :: "string \<Rightarrow> string list \<Rightarrow> bool" where
  "matches_pattern s ps = (\<exists>p. p \<in> set ps \<and> sublist (c_str p) s)"

text \<open>
  What \<^verbatim>\<open>operator<\<close> needs of
  \<^verbatim>\<open>dexfields_comparator\<close>: a strict total order on the addresses
  that are not read as special locations (``a stable global ordering'' of fields).
\<close>

definition strict_total_on_fields :: "(DexField_ptr \<Rightarrow> DexField_ptr \<Rightarrow> bool) \<Rightarrow> bool" where
  "strict_total_on_fields cmp =
     ((\<forall>p. \<not> in_special_range p \<longrightarrow> \<not> cmp p p)
    \<and> (\<forall>p q r. \<not> in_special_range p \<and> \<not> in_special_range q \<and> \<not> in_special_range r
          \<and> cmp p q \<and> cmp q r \<longrightarrow> cmp p r)
    \<and> (\<forall>p q. \<not> in_special_range p \<and> \<not> in_special_range q \<and> p \<noteq> q \<longrightarrow> cmp p q \<or> cmp q p))"

section \<open>MethodEffectAnalysis: the shared state\<close>

type_synonym DexMethod_ptr = "64 word"
type_synonym DexType_ptr = "64 word"

text \<open>
  \<^verbatim>\<open>struct MethodBarriersStats\<close>; the two
  \<^verbatim>\<open>size_t\<close> counters only count up from 0.
\<close>

record MethodBarriersStats =
  inlined_barriers_iterations :: nat
  inlined_barriers_into_methods :: nat

text \<open>
  Modelled from the spec: the override graph
  (\<^verbatim>\<open>method_override_graph::Graph\<close> is declared outside the two source
  files). Spec 6: it ``exposes, per method reference, the set of methods that could be
  invoked in its place via dispatch'': an adjacency structure with one entry per method it
  knows.
\<close>

type_synonym override_graph = "(DexMethod_ptr \<times> DexMethod_ptr list) list"

text \<open>
  \<^verbatim>\<open>class SharedState\<close>: the data members the header declares. The
  unordered sets and maps compare keys with \<^verbatim>\<open>operator==\<close>, which
  on \<open>CseLocation\<close> is equality of the cell and on \<open>Barrier\<close>
  equality of both components.
\<close>

record SharedState =
  m_pure_methods :: "DexMethod_ptr set"
  m_safe_methods :: "DexMethod_ptr set"
  m_barriers :: "Barrier \<rightharpoonup> nat"
  m_method_written_locations :: "DexMethod_ptr \<rightharpoonup> CseLocation set"
  m_method_override_graph :: override_graph

text \<open>
  The Location of the general barrier.
\<close>

abbreviation general_memory_barrier :: CseLocation where
  "general_memory_barrier \<equiv> CseLocation_of_special GENERAL_MEMORY_BARRIER"

text \<open>
  Modelled from the spec: what \<^verbatim>\<open>init_method_barriers(const Scope&)\<close>
  reads of one method of the scope (class and method metadata are external collaborators):
  its identity, the direct writes that the scan of its body finds, or nothing when it has
  no resolvable body (native, abstract), and the methods that may execute in its place.
\<close>

record ScopeMethod =
  method_ref :: DexMethod_ptr
  body_writes :: "CseLocation list option"
  overridden_by :: "DexMethod_ptr list"

type_synonym Scope = "ScopeMethod list"

text \<open>
  Modelled from the spec: spec 4.3: ``builds the override graph (method \<rightarrow> set
  of methods that may execute in its place via virtual/interface dispatch)'': one entry
  per method of the scope.
\<close>

definition build_graph :: "Scope \<Rightarrow> override_graph" where
  "build_graph scope = map (\<lambda>d. (method_ref d, overridden_by d)) scope"

text \<open>
  Modelled from the spec: the successors of a method in the override graph, from every
  entry the graph has for it; a method the graph does not know has none.
\<close>

definition children :: "override_graph \<Rightarrow> DexMethod_ptr \<Rightarrow> DexMethod_ptr list" where
  "children g m = concat (map snd (filter (\<lambda>entry. fst entry = m) g))"

text \<open>
  All the edges of an override graph, for reachability.
\<close>

definition graph_edges :: "override_graph \<Rightarrow> (DexMethod_ptr \<times> DexMethod_ptr) set" where
  "graph_edges g = {(m, s). s \<in> set (children g m)}"

text \<open>
  Modelled from the spec: a method has a resolvable body when the scope holds it and no
  record of it lacks a body: not when it is native or abstract, and not when it is missing
  from the scope.
\<close>

definition has_resolvable_body :: "Scope \<Rightarrow> DexMethod_ptr \<Rightarrow> bool" where
  "has_resolvable_body scope m =
     (m \<in> set (map method_ref scope)
      \<and> list_all (\<lambda>d. method_ref d = m \<longrightarrow> body_writes d \<noteq> None) scope)"

text \<open>
  Modelled from the spec: what one record of a method makes it write. Spec 4.3: ``scans
  every concrete method body once for direct writes''; ``methods with no resolvable body
  (native, abstract, missing) are treated as maximally unsafe --- assumed to write the
  general-barrier Location''.
\<close>

definition record_writes :: "ScopeMethod \<Rightarrow> CseLocation set" where
  "record_writes d =
     (case body_writes d of None \<Rightarrow> {general_memory_barrier} | Some ws \<Rightarrow> set ws)"

text \<open>
  Modelled from the spec: what a method writes by itself: what its records in the scope
  make it write, and the general barrier when the scope does not hold it.
\<close>

definition own_writes :: "Scope \<Rightarrow> DexMethod_ptr \<Rightarrow> CseLocation set" where
  "own_writes scope m =
     (if m \<in> set (map method_ref scope)
      then (\<Union>d\<in>set (filter (\<lambda>d. method_ref d = m) scope). record_writes d)
      else {general_memory_barrier})"

text \<open>
  Modelled from the spec: \<^verbatim>\<open>SharedState::init_method_barriers\<close> is
  only declared in the header; its body is missing. Spec 4.3: ``a method's
  effect set is the union of its direct writes and the effect sets of all its
  override-graph successors; iteration continues until no effect set changes. Returns
  aggregate stats (iteration count, methods touched).''
\<close>

definition union_with_successors ::
  "(DexMethod_ptr \<Rightarrow> DexMethod_ptr list) \<Rightarrow> (DexMethod_ptr \<Rightarrow> CseLocation set)
     \<Rightarrow> DexMethod_ptr \<Rightarrow> CseLocation set" where
  "union_with_successors succs E m = E m \<union> (\<Union>s\<in>set (succs m). E s)"

text \<open>
  Modelled from the spec: the methods whose effect set the next round of the fixpoint
  iteration changes (``methods touched'').
\<close>

definition changed_methods ::
  "DexMethod_ptr list \<Rightarrow> (DexMethod_ptr \<Rightarrow> DexMethod_ptr list)
     \<Rightarrow> (DexMethod_ptr \<Rightarrow> CseLocation set) \<Rightarrow> DexMethod_ptr list" where
  "changed_methods ms succs E = filter (\<lambda>m. union_with_successors succs E m \<noteq> E m) ms"

text \<open>
  Modelled from the spec: one round of the fixpoint iteration of
  \<open>init_method_barriers\<close>; every changed method takes the union with its
  successors.
\<close>

definition propagate_round ::
  "DexMethod_ptr list \<Rightarrow> (DexMethod_ptr \<Rightarrow> DexMethod_ptr list)
     \<Rightarrow> (DexMethod_ptr \<Rightarrow> CseLocation set) \<Rightarrow> DexMethod_ptr \<Rightarrow> CseLocation set" where
  "propagate_round ms succs E =
     (\<lambda>m. if m \<in> set (changed_methods ms succs E) then union_with_successors succs E m else E m)"

text \<open>
  Modelled from the spec: the iteration may a priori run forever: not returning is the
  value \<open>None\<close>.
\<close>

partial_function (option) effect_fixpoint ::
  "DexMethod_ptr list \<Rightarrow> (DexMethod_ptr \<Rightarrow> DexMethod_ptr list)
     \<Rightarrow> (DexMethod_ptr \<Rightarrow> CseLocation set) \<Rightarrow> MethodBarriersStats
     \<Rightarrow> (MethodBarriersStats \<times> (DexMethod_ptr \<Rightarrow> CseLocation set)) option" where
  "effect_fixpoint ms succs E st =
     (if changed_methods ms succs E = [] then Some (st, E)
      else effect_fixpoint ms succs (propagate_round ms succs E)
             (st\<lparr>inlined_barriers_iterations := inlined_barriers_iterations st + 1,
                 inlined_barriers_into_methods :=
                   inlined_barriers_into_methods st + length (changed_methods ms succs E)\<rparr>))"

declare effect_fixpoint.simps [code]

text \<open>
  Modelled from the spec: what \<open>init_method_barriers\<close> leaves in the shared
  state: one effect entry per method of the scope and the override graph; a method with no
  resolvable body is ``never classified pure or safe'', so it leaves both sets.
\<close>

definition publish ::
  "SharedState \<Rightarrow> Scope \<Rightarrow> (DexMethod_ptr \<Rightarrow> CseLocation set) \<Rightarrow> SharedState" where
  "publish state scope E =
     state\<lparr>m_pure_methods := Set.filter (has_resolvable_body scope) (m_pure_methods state),
           m_safe_methods := Set.filter (has_resolvable_body scope) (m_safe_methods state),
           m_method_written_locations :=
             (\<lambda>m. if m \<in> set (map method_ref scope) then Some (E m) else None),
           m_method_override_graph := build_graph scope\<rparr>"

text \<open>
  Modelled from the spec: \<^verbatim>\<open>SharedState::init_method_barriers\<close>
  (declared only). It builds the override graph of the scope, runs the iteration from what
  every method writes by itself over the methods of the scope, publishes the result and
  returns the stats.
\<close>

definition init_method_barriers ::
  "SharedState \<Rightarrow> Scope \<Rightarrow> (MethodBarriersStats \<times> SharedState) option" where
  "init_method_barriers state scope =
     (case effect_fixpoint (map method_ref scope) (children (build_graph scope)) (own_writes scope)
             \<lparr>inlined_barriers_iterations = 0, inlined_barriers_into_methods = 0\<rparr> of
        None \<Rightarrow> None
      | Some (stats, E) \<Rightarrow> Some (stats, publish state scope E))"

text \<open>
  Modelled from the spec: the effect set of a method, as the shared state holds it; a
  method without an entry has no resolvable body, and is assumed to write the general
  barrier (spec 4.3).
\<close>

definition effect_set :: "(DexMethod_ptr \<rightharpoonup> CseLocation set) \<Rightarrow> DexMethod_ptr \<Rightarrow> CseLocation set" where
  "effect_set W m = (case W m of None \<Rightarrow> {general_memory_barrier} | Some S \<Rightarrow> S)"

text \<open>
  Adding one override edge to the graph of a scope: \<open>s\<close> may now execute in
  place of \<open>m\<close>.
\<close>

definition add_override_edge :: "DexMethod_ptr \<Rightarrow> DexMethod_ptr \<Rightarrow> Scope \<Rightarrow> Scope" where
  "add_override_edge m s scope =
     map (\<lambda>d. if method_ref d = m then d\<lparr>overridden_by := overridden_by d @ [s]\<rparr> else d) scope"

text \<open>
  The measure of the iteration: how many Locations of the finite universe \<open>U\<close>
  the effect sets of the scope's methods still lack.
\<close>

definition unsettled ::
  "DexMethod_ptr list \<Rightarrow> CseLocation set \<Rightarrow> (DexMethod_ptr \<Rightarrow> CseLocation set) \<Rightarrow> nat" where
  "unsettled ms U E = (\<Sum>m\<in>set ms. card (U - E m))"

section \<open>Instructions, as the external interface exposes them\<close>

text \<open>
  Modelled from the spec: the instruction representation is an external collaborator
  (\<^verbatim>\<open>IRInstruction\<close> is not in the two source files). Spec 6:
  ``each instruction exposes an operation kind, ordered operand value identities, and an
  optional field/method/type reference''. The kinds are the ones spec 4.4 names; an
  operand names the instruction whose result it consumes, and \<open>ident\<close> is the
  identity of the instruction object (the \<^verbatim>\<open>IRInstruction*\<close> of
  \<^verbatim>\<open>Forward\<close>).
\<close>

datatype component_type =
  Component_Int | Component_Byte | Component_Char | Component_Wide | Component_Short
  | Component_Object | Component_Boolean

text \<open>
  Modelled from the spec: the special Location of an array component kind (spec 2:
  array-of-{int,byte,char,wide,short,object,boolean}).
\<close>

fun array_component_location :: "component_type \<Rightarrow> CseSpecialLocations" where
  "array_component_location Component_Int = ARRAY_COMPONENT_TYPE_INT"
| "array_component_location Component_Byte = ARRAY_COMPONENT_TYPE_BYTE"
| "array_component_location Component_Char = ARRAY_COMPONENT_TYPE_CHAR"
| "array_component_location Component_Wide = ARRAY_COMPONENT_TYPE_WIDE"
| "array_component_location Component_Short = ARRAY_COMPONENT_TYPE_SHORT"
| "array_component_location Component_Object = ARRAY_COMPONENT_TYPE_OBJECT"
| "array_component_location Component_Boolean = ARRAY_COMPONENT_TYPE_BOOLEAN"

text \<open>
  Modelled from the spec: the operation kinds spec 4.4 distinguishes, each with the field,
  method or component kind it refers to; \<open>RuntimeCheck\<close> is the inserted
  equality check of spec 4.5.
\<close>

datatype insn_kind =
    FieldWrite DexField_ptr
  | ArrayWrite component_type
  | MonitorOp
  | Invoke DexMethod_ptr
  | FieldRead DexField_ptr
  | ArrayRead component_type
  | ArrayLength
  | Arithmetic
  | Comparison
  | Allocation
  | OtherOp
  | RuntimeCheck

text \<open>
  Modelled from the spec: what an instruction exposes (spec 6), with the identity of the
  instruction object.
\<close>

record IRInstruction =
  ident :: nat
  insn_opcode :: IROpcode
  kind :: insn_kind
  srcs :: "nat list"

section \<open>\<open>get_relevant_written_location\<close>\<close>

text \<open>
  Modelled from the spec: \<^verbatim>\<open>SharedState::get_relevant_written_location\<close>
  and the private helpers it is declared with have no body in the source files. Spec 2:
  the analysis ``classifies methods as pure/safe/unresolved'': a method of the pure set, of
  the safe set, or of neither.
\<close>

datatype method_class = Pure | Safe | Unresolved

definition classify :: "SharedState \<Rightarrow> DexMethod_ptr \<Rightarrow> method_class" where
  "classify st m =
     (if m \<in> m_pure_methods st then Pure
      else if m \<in> m_safe_methods st then Safe
      else Unresolved)"

text \<open>
  Modelled from the spec: spec 4.3: ``if the receiver type is statically exact
  (devirtualizable), only that one target's effect set is consulted''. Finding the target
  in an exact receiver type is metadata resolution, an external collaborator: the
  parameter \<open>rslv\<close>. It may fail; the failure is a value.
\<close>

datatype resolution_error = Target_not_found

definition callee_of ::
  "(DexType_ptr \<Rightarrow> DexMethod_ptr \<Rightarrow> DexMethod_ptr option) \<Rightarrow> DexMethod_ptr \<Rightarrow> DexType_ptr option
     \<Rightarrow> resolution_error + DexMethod_ptr" where
  "callee_of rslv m exact_virtual_scope =
     (case exact_virtual_scope of
        None \<Rightarrow> Inr m
      | Some t \<Rightarrow> (case rslv t m of None \<Rightarrow> Inl Target_not_found | Some c \<Rightarrow> Inr c))"

text \<open>
  Modelled from the spec: the class of the callee of an invoke; a callee that cannot be
  found is unresolved.
\<close>

definition invoke_class ::
  "SharedState \<Rightarrow> (DexType_ptr \<Rightarrow> DexMethod_ptr \<Rightarrow> DexMethod_ptr option) \<Rightarrow> DexMethod_ptr
     \<Rightarrow> DexType_ptr option \<Rightarrow> method_class" where
  "invoke_class st rslv m exact_virtual_scope =
     (case callee_of rslv m exact_virtual_scope of
        Inl e \<Rightarrow> Unresolved
      | Inr c \<Rightarrow> classify st c)"

text \<open>
  Modelled from the spec: the answer for a store: its one Location, when that is the
  general barrier or a tracked read location.
\<close>

definition relevant_store :: "CseLocation \<Rightarrow> CseLocation set \<Rightarrow> CseLocation option" where
  "relevant_store L read_locations =
     (if loc_eq L general_memory_barrier \<or> L \<in> read_locations then Some L else None)"

text \<open>
  Modelled from the spec: the answer for an invoke whose effect set is consulted: the
  general barrier when the effect set of the callee holds the general barrier or a tracked
  read location.
\<close>

definition consult_effects ::
  "SharedState \<Rightarrow> DexMethod_ptr \<Rightarrow> CseLocation set \<Rightarrow> CseLocation option" where
  "consult_effects st c read_locations =
     (if general_memory_barrier \<in> effect_set (m_method_written_locations st) c
         \<or> effect_set (m_method_written_locations st) c \<inter> read_locations \<noteq> {}
      then Some general_memory_barrier else None)"

text \<open>
  Modelled from the spec: spec 4.3: ``determines which single Location (if any) this
  instruction invalidates that intersects the caller's currently tracked
  \<open>read_locations\<close> \<dots> Returns none when the instruction provably writes
  nothing relevant.'' Spec 4.4, step 1: ``An invoke outside the pure/safe sets invalidates
  the general-barrier Location (invalidating everything) unless a narrower effect set is
  proven via an exact receiver type.'' Spec 3: ``pure methods write no Location'', ``safe
  methods \<dots> may still write specific Locations''. Spec 7: unresolvable bodies and
  unknown receivers ``are never raised as errors''; the result type has room for one.
\<close>

definition get_relevant_written_location ::
  "SharedState \<Rightarrow> (DexType_ptr \<Rightarrow> DexMethod_ptr \<Rightarrow> DexMethod_ptr option) \<Rightarrow> IRInstruction
     \<Rightarrow> DexType_ptr option \<Rightarrow> CseLocation set \<Rightarrow> resolution_error + CseLocation option" where
  "get_relevant_written_location st rslv insn exact_virtual_scope read_locations =
     (case kind insn of
        FieldWrite f \<Rightarrow> Inr (relevant_store (CseLocation_of_field f) read_locations)
      | ArrayWrite c \<Rightarrow>
          Inr (relevant_store (CseLocation_of_special (array_component_location c)) read_locations)
      | MonitorOp \<Rightarrow> Inr (Some general_memory_barrier)
      | Invoke m \<Rightarrow>
          (case callee_of rslv m exact_virtual_scope of
             Inl e \<Rightarrow> Inr (Some general_memory_barrier)
           | Inr c \<Rightarrow>
               (case classify st c of
                  Pure \<Rightarrow> Inr None
                | Safe \<Rightarrow> Inr (consult_effects st c read_locations)
                | Unresolved \<Rightarrow>
                    (case exact_virtual_scope of
                       None \<Rightarrow> Inr (Some general_memory_barrier)
                     | Some t \<Rightarrow> Inr (consult_effects st c read_locations))))
      | _ \<Rightarrow> Inr None)"

text \<open>
  The Locations an instruction writes, in the words of the spec, as the yardstick for the
  query and the scan: a store writes the Location of its field or of its array component
  kind; a monitor operation is a general barrier; an invoke whose target cannot be found
  writes the general barrier (spec 4.3, soundness policy); an invoke outside the pure and
  safe sets with no exact receiver type writes the general barrier (spec 4.4, step 1, and
  scenario 4); an invoke of a method that is not pure writes every Location of the
  method's effect set (spec 3, MethodEffect); a pure method writes no Location.
\<close>

inductive writes_location ::
  "SharedState \<Rightarrow> (DexType_ptr \<Rightarrow> DexMethod_ptr \<Rightarrow> DexMethod_ptr option) \<Rightarrow> IRInstruction
     \<Rightarrow> DexType_ptr option \<Rightarrow> CseLocation \<Rightarrow> bool"
  for st rslv i exact_virtual_scope where
    field_store:
      "kind i = FieldWrite f \<Longrightarrow> writes_location st rslv i exact_virtual_scope (CseLocation_of_field f)"
  | array_store:
      "kind i = ArrayWrite c \<Longrightarrow>
         writes_location st rslv i exact_virtual_scope
           (CseLocation_of_special (array_component_location c))"
  | monitor_operation:
      "kind i = MonitorOp \<Longrightarrow> writes_location st rslv i exact_virtual_scope general_memory_barrier"
  | target_not_found:
      "kind i = Invoke m \<Longrightarrow> callee_of rslv m exact_virtual_scope = Inl e \<Longrightarrow>
         writes_location st rslv i exact_virtual_scope general_memory_barrier"
  | unknown_receiver:
      "kind i = Invoke m \<Longrightarrow> exact_virtual_scope = None \<Longrightarrow>
         m \<notin> m_pure_methods st \<Longrightarrow> m \<notin> m_safe_methods st \<Longrightarrow>
         writes_location st rslv i exact_virtual_scope general_memory_barrier"
  | callee_effect:
      "kind i = Invoke m \<Longrightarrow> callee_of rslv m exact_virtual_scope = Inr c \<Longrightarrow>
         c \<notin> m_pure_methods st \<Longrightarrow> L \<in> effect_set (m_method_written_locations st) c \<Longrightarrow>
         writes_location st rslv i exact_virtual_scope L"

code_pred writes_location .

section \<open>PerMethodCSE\<close>

text \<open>
  \<^verbatim>\<open>struct Forward\<close>: the two instruction pointers, as instruction
  identities.
\<close>

record Forward =
  earlier_insn :: nat
  insn :: nat

text \<open>
  \<^verbatim>\<open>struct Stats\<close>: every counter starts at 0 and the histogram,
  keyed by the opcode as \<^verbatim>\<open>uint16_t\<close>, starts empty.
\<close>

record Stats =
  results_captured :: nat
  stores_captured :: nat
  array_lengths_captured :: nat
  instructions_eliminated :: nat
  max_value_ids :: nat
  methods_using_other_tracked_location_bit :: nat
  eliminated_opcodes :: "16 word \<rightharpoonup> nat"

text \<open>
  The default member initialisers of \<^verbatim>\<open>Stats\<close>.
\<close>

definition Stats_init :: Stats where
  "Stats_init =
     \<lparr>results_captured = 0, stores_captured = 0, array_lengths_captured = 0,
      instructions_eliminated = 0, max_value_ids = 0,
      methods_using_other_tracked_location_bit = 0, eliminated_opcodes = Map.empty\<rparr>"

text \<open>
  Modelled from the spec: the analysis run by the constructor of
  \<^verbatim>\<open>CommonSubexpressionElimination\<close> has no body in the source
  files. Spec 3: a \<open>ValueEntry\<close> maps ``an abstract value identity to the
  producing instruction, the Locations it depended on, and its operand value identities''.
  The value identity of an entry is the identity of its producing instruction.
\<close>

record ValueEntry =
  value_id :: nat
  producer :: nat
  depends :: "CseLocation list"
  operand_ids :: "nat list"

text \<open>
  Modelled from the spec: spec 4.4: ``signature = (operation, ordered input value
  identities, current relevant Location-read state)''; the table is keyed by the
  signature.
\<close>

type_synonym signature = "IROpcode \<times> insn_kind \<times> nat list \<times> CseLocation list"
type_synonym value_table = "(signature \<times> ValueEntry) list"

text \<open>
  Modelled from the spec: what the analysis reads of its surroundings: the shared state,
  the resolution of an exact receiver type, and the exact receiver type (if any) the type
  analysis supplies at the call site of an instruction.
\<close>

record analysis_env =
  shared_state :: SharedState
  resolve_exact :: "DexType_ptr \<Rightarrow> DexMethod_ptr \<Rightarrow> DexMethod_ptr option"
  exact_scope_at :: "nat \<Rightarrow> DexType_ptr option"

text \<open>
  Modelled from the spec: the state of the scan: the live-value table and the forwards
  recorded so far (\<^verbatim>\<open>m_forward\<close>).
\<close>

record analysis_state =
  table :: value_table
  forwards :: "Forward list"

text \<open>
  Modelled from the spec: the value identity of an operand: a forwarded instruction yields
  the value of the earlier instruction it was paired with, any other result is its own
  value.
\<close>

definition value_identity :: "Forward list \<Rightarrow> nat \<Rightarrow> nat" where
  "value_identity fw r = (case find (\<lambda>f. insn f = r) fw of None \<Rightarrow> r | Some f \<Rightarrow> earlier_insn f)"

text \<open>
  Modelled from the spec: the Locations an instruction reads (its dependency set).
\<close>

fun read_locations_of :: "insn_kind \<Rightarrow> CseLocation list" where
  "read_locations_of (FieldRead f) = [CseLocation_of_field f]"
| "read_locations_of (ArrayRead c) = [CseLocation_of_special (array_component_location c)]"
| "read_locations_of k = []"

text \<open>
  Modelled from the spec: the class of the callee of an invoke instruction, with the exact
  receiver type supplied at its call site.
\<close>

definition env_invoke_class :: "analysis_env \<Rightarrow> IRInstruction \<Rightarrow> DexMethod_ptr \<Rightarrow> method_class" where
  "env_invoke_class env i m =
     invoke_class (shared_state env) (resolve_exact env) m (exact_scope_at env (ident i))"

text \<open>
  Modelled from the spec: spec 4.4, step 1: ``the instruction may write memory
  (field/array store, monitor operation, opaque invoke)''.
\<close>

definition may_write_memory :: "analysis_env \<Rightarrow> IRInstruction \<Rightarrow> bool" where
  "may_write_memory env i =
     (case kind i of
        FieldWrite f \<Rightarrow> True
      | ArrayWrite c \<Rightarrow> True
      | MonitorOp \<Rightarrow> True
      | Invoke m \<Rightarrow> env_invoke_class env i m \<noteq> Pure
      | _ \<Rightarrow> False)"

text \<open>
  Modelled from the spec: spec 4.4, step 2: ``the instruction is a pure computation or
  reads a tracked Location (arithmetic, pure invoke, array-length, field read, pure
  comparison)''.
\<close>

definition is_forwardable :: "analysis_env \<Rightarrow> IRInstruction \<Rightarrow> bool" where
  "is_forwardable env i =
     (case kind i of
        FieldRead f \<Rightarrow> True
      | ArrayRead c \<Rightarrow> True
      | ArrayLength \<Rightarrow> True
      | Arithmetic \<Rightarrow> True
      | Comparison \<Rightarrow> True
      | Invoke m \<Rightarrow> env_invoke_class env i m = Pure
      | _ \<Rightarrow> False)"

text \<open>
  Modelled from the spec: an invalidated general barrier invalidates every Location; an
  entry is ``removed when any depended Location is invalidated''.
\<close>

definition invalidates :: "CseLocation \<Rightarrow> CseLocation \<Rightarrow> bool" where
  "invalidates L d = (loc_eq L general_memory_barrier \<or> loc_eq L d)"

text \<open>
  Modelled from the spec: the dependency set of an entry intersects a written Location.
\<close>

definition depends_on :: "ValueEntry \<Rightarrow> CseLocation \<Rightarrow> bool" where
  "depends_on e L = list_ex (invalidates L) (depends e)"

text \<open>
  Modelled from the spec: the read locations currently tracked: those some live entry
  depends on.
\<close>

definition tracked_locations :: "value_table \<Rightarrow> CseLocation set" where
  "tracked_locations T = set (concat (map (\<lambda>x. depends (snd x)) T))"

text \<open>
  Modelled from the spec: the query of step 1, for an instruction that may write memory,
  among the read locations currently tracked; a query that failed would count as the
  general barrier.
\<close>

definition barrier_location :: "analysis_env \<Rightarrow> IRInstruction \<Rightarrow> value_table \<Rightarrow> CseLocation option" where
  "barrier_location env i T =
     (if may_write_memory env i
      then (case get_relevant_written_location (shared_state env) (resolve_exact env) i
                   (exact_scope_at env (ident i)) (tracked_locations T) of
              Inr answer \<Rightarrow> answer
            | Inl e \<Rightarrow> Some general_memory_barrier)
      else None)"

text \<open>
  Modelled from the spec: spec 4.4, step 1: ``remove every live entry whose dependency set
  intersects that Location''.
\<close>

definition barrier_check :: "analysis_env \<Rightarrow> IRInstruction \<Rightarrow> value_table \<Rightarrow> value_table" where
  "barrier_check env i T =
     (case barrier_location env i T of
        None \<Rightarrow> T
      | Some L \<Rightarrow> filter (\<lambda>x. \<not> depends_on (snd x) L) T)"

text \<open>
  Modelled from the spec: the signature of an instruction (spec 4.4), with the value
  identities of its operands.
\<close>

definition signature_of :: "Forward list \<Rightarrow> IRInstruction \<Rightarrow> signature" where
  "signature_of fw i =
     (insn_opcode i, kind i, map (value_identity fw) (srcs i), read_locations_of (kind i))"

text \<open>
  Modelled from the spec: the entry a forwardable instruction creates (spec 3).
\<close>

definition new_entry :: "Forward list \<Rightarrow> IRInstruction \<Rightarrow> ValueEntry" where
  "new_entry fw i =
     \<lparr>value_id = ident i, producer = ident i, depends = read_locations_of (kind i),
      operand_ids = map (value_identity fw) (srcs i)\<rparr>"

text \<open>
  Modelled from the spec: spec 4.4, step 2: ``If a live entry has an identical signature,
  record \<open>Forward(earlier, this)\<close> and do not create a new entry. Otherwise
  insert a new entry keyed by the signature.''
\<close>

definition forwarding_check :: "analysis_env \<Rightarrow> IRInstruction \<Rightarrow> analysis_state \<Rightarrow> analysis_state" where
  "forwarding_check env i s =
     (if is_forwardable env i then
        (case map_of (table s) (signature_of (forwards s) i) of
           Some e \<Rightarrow> s\<lparr>forwards := forwards s @ [\<lparr>earlier_insn = producer e, insn = ident i\<rparr>]\<rparr>
         | None \<Rightarrow>
             s\<lparr>table := table s @ [(signature_of (forwards s) i, new_entry (forwards s) i)]\<rparr>)
      else s)"

text \<open>
  Modelled from the spec: per instruction, in order: barrier check, forwarding check,
  otherwise pass through.
\<close>

definition process_insn :: "analysis_env \<Rightarrow> IRInstruction \<Rightarrow> analysis_state \<Rightarrow> analysis_state" where
  "process_insn env i s = forwarding_check env i (s\<lparr>table := barrier_check env i (table s)\<rparr>)"

text \<open>
  Modelled from the spec: the CFG is an external collaborator too: its blocks in the order
  the pass visits them, each with the identities of its predecessors.
\<close>

record Block =
  block_id :: nat
  preds :: "nat list"
  insns :: "IRInstruction list"

text \<open>
  Modelled from the spec: the CFG as the list of its blocks in the order the pass visits
  them.
\<close>

type_synonym ControlFlowGraph = "Block list"

text \<open>
  Modelled from the spec: spec 4.4: ``a block's entry table is the intersection of its
  already-visited predecessors' exit tables --- an entry survives only if present and
  identical on all of them; back-edge/unresolved predecessors start with an empty table''.
\<close>

definition entry_table :: "(nat \<rightharpoonup> value_table) \<Rightarrow> nat list \<Rightarrow> value_table" where
  "entry_table exits ps =
     (case those (map exits ps) of
        None \<Rightarrow> []
      | Some [] \<Rightarrow> []
      | Some (t # ts) \<Rightarrow> filter (\<lambda>x. list_all (\<lambda>u. x \<in> set u) ts) t)"

text \<open>
  Modelled from the spec: the scan of the instructions of one block, in order.
\<close>

definition scan_block :: "analysis_env \<Rightarrow> IRInstruction list \<Rightarrow> analysis_state \<Rightarrow> analysis_state" where
  "scan_block env is s = fold (process_insn env) is s"

text \<open>
  Modelled from the spec: the single forward pass over the blocks; each block starts
  from its entry table and exports its exit table.
\<close>

fun scan_blocks ::
  "analysis_env \<Rightarrow> Block list \<Rightarrow> (nat \<rightharpoonup> value_table) \<Rightarrow> Forward list
     \<Rightarrow> (nat \<rightharpoonup> value_table) \<times> Forward list" where
  "scan_blocks env [] exits fw = (exits, fw)"
| "scan_blocks env (b # bs) exits fw =
     (let s = scan_block env (insns b) \<lparr>table = entry_table exits (preds b), forwards = fw\<rparr>
      in scan_blocks env bs (exits(block_id b \<mapsto> table s)) (forwards s))"

text \<open>
  \<^verbatim>\<open>class CommonSubexpressionElimination\<close>: its constructor runs
  the analysis.
\<close>

record CommonSubexpressionElimination =
  m_forward :: "Forward list"
  m_cfg :: ControlFlowGraph
  m_stats :: Stats

text \<open>
  Modelled from the spec: the constructor of
  \<^verbatim>\<open>CommonSubexpressionElimination\<close> (declared only) runs the
  analysis on the CFG and keeps the forwards.
\<close>

definition CommonSubexpressionElimination ::
  "analysis_env \<Rightarrow> ControlFlowGraph \<Rightarrow> CommonSubexpressionElimination" where
  "CommonSubexpressionElimination env cfg =
     \<lparr>m_forward = snd (scan_blocks env cfg Map.empty []),
      m_cfg = cfg,
      m_stats = Stats_init\<rparr>"

text \<open>
  \<^verbatim>\<open>get_stats\<close>, defined in the header.
\<close>

definition get_stats :: "CommonSubexpressionElimination \<Rightarrow> Stats" where
  "get_stats cse = m_stats cse"

text \<open>
  Modelled from the spec: \<^verbatim>\<open>CommonSubexpressionElimination::patch\<close>
  and \<^verbatim>\<open>insert_runtime_assertions\<close> are only declared. Spec 4.4:
  patch ``rewrites consumers of the later instruction's result to consume the earlier
  instruction's result and marks the later computation dead; if runtime assertions are
  enabled, inserts an equality check between the two values instead of deleting''; it
  emits the total eliminated and the histogram of eliminated operation kinds. The
  comparison sequence is built by the parameter \<open>mk_check\<close> (instruction
  construction is external). The parameters \<^verbatim>\<open>is_static\<close>,
  \<^verbatim>\<open>declaring_type\<close> and \<^verbatim>\<open>args\<close> only serve
  that construction.
\<close>

definition is_forwarded :: "Forward list \<Rightarrow> IRInstruction \<Rightarrow> bool" where
  "is_forwarded fw i = list_ex (\<lambda>f. insn f = ident i) fw"

text \<open>
  Modelled from the spec: patch ``rewrites consumers of the later instruction's result to
  consume the earlier instruction's result''.
\<close>

definition rewrite_consumer :: "Forward list \<Rightarrow> IRInstruction \<Rightarrow> IRInstruction" where
  "rewrite_consumer fw i = i\<lparr>srcs := map (value_identity fw) (srcs i)\<rparr>"

text \<open>
  Modelled from the spec: what patch leaves of one instruction: a later computation is
  removed, or kept and followed by the equality check when runtime assertions are enabled.
\<close>

definition patch_insn ::
  "Forward list \<Rightarrow> (Forward \<Rightarrow> IRInstruction list) \<Rightarrow> bool \<Rightarrow> IRInstruction \<Rightarrow> IRInstruction list" where
  "patch_insn fw mk_check runtime_assertions i =
     (case find (\<lambda>f. insn f = ident i) fw of
        None \<Rightarrow> [rewrite_consumer fw i]
      | Some f \<Rightarrow> if runtime_assertions then rewrite_consumer fw i # mk_check f else [])"

text \<open>
  Modelled from the spec: patch applied to the instructions of a block.
\<close>

definition patch_block ::
  "Forward list \<Rightarrow> (Forward \<Rightarrow> IRInstruction list) \<Rightarrow> bool \<Rightarrow> Block \<Rightarrow> Block" where
  "patch_block fw mk_check runtime_assertions b =
     b\<lparr>insns := concat (map (patch_insn fw mk_check runtime_assertions) (insns b))\<rparr>"

text \<open>
  Modelled from the spec: the stats patch emits: the total eliminated and the histogram
  of eliminated operation kinds.
\<close>

definition count_eliminated :: "Forward list \<Rightarrow> ControlFlowGraph \<Rightarrow> Stats \<Rightarrow> Stats" where
  "count_eliminated fw cfg st =
     fold (\<lambda>i st. st\<lparr>instructions_eliminated := instructions_eliminated st + 1,
                      eliminated_opcodes := (eliminated_opcodes st)
                        (insn_opcode i \<mapsto>
                           (case eliminated_opcodes st (insn_opcode i) of
                              None \<Rightarrow> 1 | Some n \<Rightarrow> n + 1))\<rparr>)
       (filter (is_forwarded fw) (concat (map insns cfg))) st"

text \<open>
  Modelled from the spec: \<^verbatim>\<open>CommonSubexpressionElimination::patch\<close>
  (declared only); it answers whether it changed the code.
\<close>

definition patch ::
  "CommonSubexpressionElimination \<Rightarrow> (Forward \<Rightarrow> IRInstruction list) \<Rightarrow> bool
     \<Rightarrow> bool \<times> CommonSubexpressionElimination" where
  "patch cse mk_check runtime_assertions =
     (if m_forward cse = [] then (False, cse)
      else (True,
            cse\<lparr>m_cfg := map (patch_block (m_forward cse) mk_check runtime_assertions) (m_cfg cse),
                m_stats := count_eliminated (m_forward cse) (m_cfg cse) (m_stats cse)\<rparr>))"

section \<open>Well-formed method bodies and a worked example\<close>

text \<open>The instructions of a CFG in the order the pass visits them.\<close>

definition all_insns :: "Block list \<Rightarrow> IRInstruction list" where
  "all_insns bs = concat (map insns bs)"


text \<open>
  An operand names the result of an instruction visited earlier, or a value no instruction
  of the body produces, such as a parameter: no value is carried around a loop.
\<close>

fun operands_before_use :: "IRInstruction list \<Rightarrow> bool" where
  "operands_before_use [] = True"
| "operands_before_use (i # rest) =
     ((\<forall>r\<in>set (srcs i). r \<notin> ident ` set (i # rest)) \<and> operands_before_use rest)"

text \<open>
  The exit tables the pass leaves, by block identity, and the paths of a CFG: each block
  of a path has its predecessor on the path among its predecessors.
\<close>

definition exit_tables :: "analysis_env \<Rightarrow> ControlFlowGraph \<Rightarrow> (nat \<rightharpoonup> value_table)" where
  "exit_tables env cfg = fst (scan_blocks env cfg Map.empty [])"

fun cfg_path :: "Block list \<Rightarrow> bool" where
  "cfg_path (b # c # rest) = (block_id b \<in> set (preds c) \<and> cfg_path (c # rest))"
| "cfg_path bs = True"

text \<open>
  An environment without purity information or exact receiver types, a builder of the
  runtime check for a pair, and a block that reads a field twice and adds each result to
  itself.
\<close>

definition example_env :: analysis_env where
  "example_env =
     \<lparr>shared_state = \<lparr>m_pure_methods = {}, m_safe_methods = {}, m_barriers = Map.empty,
                       m_method_written_locations = Map.empty,
                       m_method_override_graph = []\<rparr>,
      resolve_exact = (\<lambda>t m. None), exact_scope_at = (\<lambda>i. None)\<rparr>"

definition example_check :: "Forward \<Rightarrow> IRInstruction list" where
  "example_check f =
     [\<lparr>ident = 100 + insn f, insn_opcode = 0, kind = RuntimeCheck,
       srcs = [earlier_insn f, insn f]\<rparr>]"

definition example_cfg :: ControlFlowGraph where
  "example_cfg =
     [\<lparr>block_id = 0, preds = [],
       insns = [\<lparr>ident = 1, insn_opcode = 82, kind = FieldRead 4096, srcs = [0]\<rparr>,
                \<lparr>ident = 2, insn_opcode = 82, kind = FieldRead 4096, srcs = [0]\<rparr>,
                \<lparr>ident = 3, insn_opcode = 144, kind = Arithmetic, srcs = [1, 1]\<rparr>,
                \<lparr>ident = 4, insn_opcode = 144, kind = Arithmetic, srcs = [2, 2]\<rparr>]\<rparr>]"

text \<open>
  A CFG of two blocks: a read, a store and a read of the same field, then a block that
  reads it once more.
\<close>

definition example_store_cfg :: ControlFlowGraph where
  "example_store_cfg =
     [\<lparr>block_id = 0, preds = [],
       insns = [\<lparr>ident = 1, insn_opcode = 82, kind = FieldRead 4096, srcs = [0]\<rparr>,
                \<lparr>ident = 2, insn_opcode = 89, kind = FieldWrite 4096, srcs = [0, 9]\<rparr>,
                \<lparr>ident = 3, insn_opcode = 82, kind = FieldRead 4096, srcs = [0]\<rparr>]\<rparr>,
      \<lparr>block_id = 1, preds = [0],
       insns = [\<lparr>ident = 4, insn_opcode = 82, kind = FieldRead 4096, srcs = [0]\<rparr>]\<rparr>]"

text \<open>
  A loop: the second block is its own predecessor, and its third instruction consumes the
  value that the fourth one produced in the previous round.
\<close>

definition example_loop_cfg :: ControlFlowGraph where
  "example_loop_cfg =
     [\<lparr>block_id = 0, preds = [],
       insns = [\<lparr>ident = 1, insn_opcode = 34, kind = Allocation, srcs = []\<rparr>]\<rparr>,
      \<lparr>block_id = 1, preds = [0, 1],
       insns = [\<lparr>ident = 2, insn_opcode = 82, kind = FieldRead 4096, srcs = [0]\<rparr>,
                \<lparr>ident = 10, insn_opcode = 144, kind = Arithmetic, srcs = [2, 2]\<rparr>,
                \<lparr>ident = 11, insn_opcode = 144, kind = Arithmetic, srcs = [3, 3]\<rparr>,
                \<lparr>ident = 3, insn_opcode = 82, kind = FieldRead 4096, srcs = [0]\<rparr>]\<rparr>]"

text \<open>
  A block in which one instruction object occurs twice, as a store and as a read.
\<close>

definition example_shared_insn_cfg :: ControlFlowGraph where
  "example_shared_insn_cfg =
     [\<lparr>block_id = 0, preds = [],
       insns = [\<lparr>ident = 1, insn_opcode = 82, kind = FieldRead 4096, srcs = [0]\<rparr>,
                \<lparr>ident = 5, insn_opcode = 89, kind = FieldWrite 4096, srcs = [0, 9]\<rparr>,
                \<lparr>ident = 2, insn_opcode = 82, kind = FieldRead 4096, srcs = [0]\<rparr>,
                \<lparr>ident = 3, insn_opcode = 82, kind = FieldRead 8192, srcs = [0]\<rparr>,
                \<lparr>ident = 5, insn_opcode = 82, kind = FieldRead 8192, srcs = [0]\<rparr>]\<rparr>]"

text \<open>
  A scope of three methods: method 1 writes int arrays and is overridden by the abstract
  method 2, which is overridden by method 3, which writes one field.
\<close>

definition example_scope :: Scope where
  "example_scope =
     [\<lparr>method_ref = 1, body_writes = Some [CseLocation_of_special ARRAY_COMPONENT_TYPE_INT],
       overridden_by = [2]\<rparr>,
      \<lparr>method_ref = 2, body_writes = None, overridden_by = [3]\<rparr>,
      \<lparr>method_ref = 3, body_writes = Some [CseLocation_of_field 4096], overridden_by = []\<rparr>]"

text \<open>
  An environment in which method 7 has the effect set of one field, with a given safe set
  and no pure method, and a block that reads another field before and after invoking
  method 7 on a receiver of unknown type.
\<close>

definition example_invoke_env :: "DexMethod_ptr set \<Rightarrow> analysis_env" where
  "example_invoke_env safe =
     \<lparr>shared_state = \<lparr>m_pure_methods = {}, m_safe_methods = safe, m_barriers = Map.empty,
                       m_method_written_locations = [7 \<mapsto> {CseLocation_of_field 8192}],
                       m_method_override_graph = [(7, [])]\<rparr>,
      resolve_exact = (\<lambda>t m. None), exact_scope_at = (\<lambda>i. None)\<rparr>"

definition example_invoke_cfg :: ControlFlowGraph where
  "example_invoke_cfg =
     [\<lparr>block_id = 0, preds = [],
       insns = [\<lparr>ident = 1, insn_opcode = 82, kind = FieldRead 4096, srcs = [0]\<rparr>,
                \<lparr>ident = 2, insn_opcode = 110, kind = Invoke 7, srcs = [0]\<rparr>,
                \<lparr>ident = 3, insn_opcode = 82, kind = FieldRead 4096, srcs = [0]\<rparr>]\<rparr>]"

section \<open>Properties of the location model\<close>

lemma enum_value_lt_END: "s \<noteq> END \<Longrightarrow> enum_value s < enum_value END"
  by (cases s) simp_all

lemma nullptr_field_aliases_general_barrier:
  "loc_eq (CseLocation_of_field 0) (CseLocation_of_special GENERAL_MEMORY_BARRIER)"
  by (simp add: loc_eq_def field_def CseLocation_of_field_def CseLocation_of_special_def)

text \<open>
  A \<^verbatim>\<open>DexField\<close> object holds pointers, so its address is a
  non-null multiple of 8 on the 64-bit target: such an address is never in the special
  range.
\<close>

lemma aligned_pointer_not_special:
  fixes f :: DexField_ptr
  assumes "f \<noteq> 0" and "f AND 7 = 0"
  shows "\<not> in_special_range f"
proof -
  have "f AND 7 = take_bit 3 f" by (simp add: take_bit_eq_mask mask_eq_exp_minus_1)
  with assms(2) have "take_bit 3 (unat f) = 0"
    by (metis unsigned_take_bit_eq unsigned_0)
  then have m: "unat f mod 8 = 0" by (simp add: take_bit_eq_mod)
  from assms(1) have "unat f \<noteq> 0" by (simp add: unat_eq_0)
  with m have "8 \<le> unat f" by presburger
  then have "(8 :: 64 word) \<le> f" by (simp add: word_le_nat_alt)
  then show ?thesis by (simp add: in_special_range_def not_less)
qed

text \<open>
  C1: a location built from a real field identity (an address that is not one of the
  illegal pointer values below \<^verbatim>\<open>END\<close>) is never equal to the
  location built from \<^verbatim>\<open>GENERAL_MEMORY_BARRIER\<close> or from an array
  component tag; every such tag lies in the special range.
\<close>

theorem special_never_equals_real_field:
  "\<not> in_special_range f \<Longrightarrow> s \<noteq> END \<Longrightarrow>
     \<not> loc_eq (CseLocation_of_field f) (CseLocation_of_special s)
   \<and> loc_neq (CseLocation_of_field f) (CseLocation_of_special s)
   \<and> in_special_range (special_location (CseLocation_of_special s))"
  using enum_value_lt_END [of s]
  by (auto simp: loc_eq_def loc_neq_def field_def special_location_def CseLocation_of_field_def
      CseLocation_of_special_def in_special_range_def)

theorem special_never_equals_real_field_witness:
  "\<not> in_special_range 4096 \<and> ARRAY_COMPONENT_TYPE_WIDE \<noteq> END
   \<and> \<not> loc_eq (CseLocation_of_field 4096) (CseLocation_of_special ARRAY_COMPONENT_TYPE_WIDE)"
  using special_never_equals_real_field [of 4096 ARRAY_COMPONENT_TYPE_WIDE]
  by (simp add: in_special_range_def)

lemma cmp_irrefl: "strict_total_on_fields cmp \<Longrightarrow> \<not> in_special_range p \<Longrightarrow> \<not> cmp p p"
  unfolding strict_total_on_fields_def by blast

lemma cmp_trans:
  "strict_total_on_fields cmp \<Longrightarrow> \<not> in_special_range p \<Longrightarrow> \<not> in_special_range q \<Longrightarrow>
   \<not> in_special_range r \<Longrightarrow> cmp p q \<Longrightarrow> cmp q r \<Longrightarrow> cmp p r"
  unfolding strict_total_on_fields_def by blast

lemma cmp_total:
  "strict_total_on_fields cmp \<Longrightarrow> \<not> in_special_range p \<Longrightarrow> \<not> in_special_range q \<Longrightarrow>
   p \<noteq> q \<Longrightarrow> cmp p q \<or> cmp q p"
  unfolding strict_total_on_fields_def by blast

lemma loc_less_alt:
  "loc_less cmp a b =
     (if in_special_range (cell a) then (in_special_range (cell b) \<longrightarrow> cell a < cell b)
      else \<not> in_special_range (cell b) \<and> cmp (cell a) (cell b))"
  by (simp add: loc_less_def in_special_range_def special_location_def field_def)

lemma loc_less_irrefl: "strict_total_on_fields cmp \<Longrightarrow> \<not> loc_less cmp a a"
  by (simp add: loc_less_alt cmp_irrefl)

lemma loc_less_trans:
  assumes st: "strict_total_on_fields cmp" and ab: "loc_less cmp a b" and bc: "loc_less cmp b c"
  shows "loc_less cmp a c"
proof (cases "in_special_range (cell a)")
  case True
  show ?thesis
  proof (cases "in_special_range (cell c)")
    case False
    with True show ?thesis by (simp add: loc_less_alt)
  next
    case c: True
    then have b: "in_special_range (cell b)" using bc
      by (simp add: loc_less_alt split: if_splits)
    from True b c ab bc have "cell a < cell b" "cell b < cell c"
      by (simp_all add: loc_less_alt)
    then have "cell a < cell c" by (rule less_trans)
    with True c show ?thesis by (simp add: loc_less_alt)
  qed
next
  case False
  then have b: "\<not> in_special_range (cell b)" and 1: "cmp (cell a) (cell b)" using ab
    by (simp_all add: loc_less_alt)
  then have c: "\<not> in_special_range (cell c)" and 2: "cmp (cell b) (cell c)" using bc
    by (simp_all add: loc_less_alt)
  from cmp_trans [OF st False b c 1 2] False c show ?thesis
    by (simp add: loc_less_alt)
qed

lemma loc_less_total:
  assumes st: "strict_total_on_fields cmp" and ne: "\<not> loc_eq a b"
  shows "loc_less cmp a b \<or> loc_less cmp b a"
proof -
  from ne have neq: "cell a \<noteq> cell b" by (simp add: loc_eq_def field_def)
  show ?thesis
  proof (cases "in_special_range (cell a)")
    case True
    show ?thesis
    proof (cases "in_special_range (cell b)")
      case False
      with True show ?thesis by (simp add: loc_less_alt)
    next
      case b: True
      from neq linorder_less_linear [of "cell a" "cell b"]
      have "cell a < cell b \<or> cell b < cell a" by blast
      with True b show ?thesis by (simp add: loc_less_alt)
    qed
  next
    case False
    show ?thesis
    proof (cases "in_special_range (cell b)")
      case True
      with False show ?thesis by (simp add: loc_less_alt)
    next
      case b: False
      from cmp_total [OF st False b neq] False b show ?thesis by (simp add: loc_less_alt)
    qed
  qed
qed

lemma loc_less_not_eq:
  assumes st: "strict_total_on_fields cmp" and ab: "loc_less cmp a b"
  shows "\<not> loc_eq a b"
proof
  assume "loc_eq a b"
  then have "cell a = cell b" by (simp add: loc_eq_def field_def)
  then have "loc_less cmp a b = loc_less cmp a a" by (simp add: loc_less_alt)
  with ab loc_less_irrefl [OF st, of a] show False by simp
qed

lemma loc_less_asym:
  assumes st: "strict_total_on_fields cmp" and ab: "loc_less cmp a b"
  shows "\<not> loc_less cmp b a"
proof
  assume "loc_less cmp b a"
  from loc_less_trans [OF st ab this] loc_less_irrefl [OF st, of a] show False by simp
qed

lemma special_before_field:
  "s \<noteq> END \<Longrightarrow> \<not> in_special_range f \<Longrightarrow>
     loc_less cmp (CseLocation_of_special s) (CseLocation_of_field f)"
  using enum_value_lt_END [of s]
  by (simp add: loc_less_alt in_special_range_def CseLocation_of_special_def CseLocation_of_field_def)

lemma strict_total_word_less: "strict_total_on_fields (\<lambda>p q. p < q)"
  unfolding strict_total_on_fields_def
  by (intro conjI allI impI) (simp, (elim conjE, erule (1) less_trans), (elim conjE, simp add: neq_iff))

text \<open>
  C2: given a strict total field comparator, \<^verbatim>\<open>operator<\<close> is a
  strict total order consistent with \<^verbatim>\<open>operator==\<close>: exactly one of
  \<open>a < b\<close>, \<open>b < a\<close>, \<open>a == b\<close> holds, the order is
  irreflexive and transitive, and every special location is strictly below every field
  location.
\<close>

theorem loc_less_strict_total_order:
  assumes st: "strict_total_on_fields cmp"
  shows "((loc_less cmp a b \<and> \<not> loc_less cmp b a \<and> \<not> loc_eq a b)
        \<or> (\<not> loc_less cmp a b \<and> loc_less cmp b a \<and> \<not> loc_eq a b)
        \<or> (\<not> loc_less cmp a b \<and> \<not> loc_less cmp b a \<and> loc_eq a b))
       \<and> \<not> loc_less cmp a a
       \<and> (loc_less cmp a b \<and> loc_less cmp b c \<longrightarrow> loc_less cmp a c)
       \<and> (in_special_range (cell a) \<and> \<not> in_special_range (cell b) \<longrightarrow> loc_less cmp a b)
       \<and> (s \<noteq> END \<and> \<not> in_special_range f \<longrightarrow>
            loc_less cmp (CseLocation_of_special s) (CseLocation_of_field f))"
proof (intro conjI)
  have eq_sym: "loc_eq a b \<Longrightarrow> loc_eq b a" by (simp add: loc_eq_def)
  show "(loc_less cmp a b \<and> \<not> loc_less cmp b a \<and> \<not> loc_eq a b)
        \<or> (\<not> loc_less cmp a b \<and> loc_less cmp b a \<and> \<not> loc_eq a b)
        \<or> (\<not> loc_less cmp a b \<and> \<not> loc_less cmp b a \<and> loc_eq a b)"
    using loc_less_total [OF st, of a b] loc_less_asym [OF st, of a b]
      loc_less_asym [OF st, of b a] loc_less_not_eq [OF st, of a b]
      loc_less_not_eq [OF st, of b a] eq_sym
    by blast
  show "\<not> loc_less cmp a a" by (rule loc_less_irrefl [OF st])
  show "loc_less cmp a b \<and> loc_less cmp b c \<longrightarrow> loc_less cmp a c"
    using loc_less_trans [OF st, of a b c] by blast
  show "in_special_range (cell a) \<and> \<not> in_special_range (cell b) \<longrightarrow> loc_less cmp a b"
    by (simp add: loc_less_alt)
  show "s \<noteq> END \<and> \<not> in_special_range f \<longrightarrow>
            loc_less cmp (CseLocation_of_special s) (CseLocation_of_field f)"
    using special_before_field [of s f cmp] by blast
qed

theorem loc_less_strict_total_order_witness:
  "loc_less (\<lambda>p q. p < q) (CseLocation_of_special ARRAY_COMPONENT_TYPE_INT) (CseLocation_of_field 4096)
   \<and> \<not> loc_less (\<lambda>p q. p < q) (CseLocation_of_field 4096) (CseLocation_of_special ARRAY_COMPONENT_TYPE_INT)
   \<and> \<not> loc_eq (CseLocation_of_special ARRAY_COMPONENT_TYPE_INT) (CseLocation_of_field 4096)
   \<and> loc_less (\<lambda>p q. p < q) (CseLocation_of_field 4096) (CseLocation_of_field 8192)
   \<and> loc_less (\<lambda>p q. p < q) (CseLocation_of_special ARRAY_COMPONENT_TYPE_INT) (CseLocation_of_field 8192)"
  using loc_less_strict_total_order [OF strict_total_word_less,
      of "CseLocation_of_special ARRAY_COMPONENT_TYPE_INT" "CseLocation_of_field 4096"
         "CseLocation_of_field 8192" ARRAY_COMPONENT_TYPE_INT 4096]
  by (simp add: loc_less_alt loc_eq_def field_def in_special_range_def
      CseLocation_of_special_def CseLocation_of_field_def)

section \<open>Properties of barriers and hashing\<close>

text \<open>
  C3: two barriers are equal exactly when their opcodes and their field identities are
  equal; the method identity is the same cell as the field identity, so equal barriers are
  identical records.
\<close>

theorem barrier_eq_iff:
  "(barrier_eq a b \<longleftrightarrow> opcode a = opcode b \<and> Barrier_field a = Barrier_field b)
   \<and> (barrier_eq a b \<longleftrightarrow> a = b)
   \<and> Barrier_method a = Barrier_field a"
  by (auto simp: barrier_eq_def Barrier_field_def Barrier_method_def)

text \<open>
  C9: both hashers are consistent with equality: equal locations have equal
  \<^verbatim>\<open>CseLocationHasher\<close> values and equal barriers have equal
  \<^verbatim>\<open>BarrierHasher\<close> values.
\<close>

theorem hash_consistent_with_equality:
  "(loc_eq a b \<longrightarrow> CseLocationHasher a = CseLocationHasher b)
   \<and> (barrier_eq x y \<longrightarrow> BarrierHasher x = BarrierHasher y)"
  by (simp add: loc_eq_def CseLocationHasher_def barrier_eq_def BarrierHasher_def)

theorem hash_consistent_with_equality_witness:
  "loc_eq (CseLocation_of_field 0) (CseLocation_of_special GENERAL_MEMORY_BARRIER)
   \<and> CseLocationHasher (CseLocation_of_field 0)
       = CseLocationHasher (CseLocation_of_special GENERAL_MEMORY_BARRIER)
   \<and> barrier_eq \<lparr>opcode = 82, slot = 4096\<rparr> \<lparr>opcode = 82, slot = 4096\<rparr>
   \<and> BarrierHasher \<lparr>opcode = 82, slot = 4096\<rparr> = 4178"
  using hash_consistent_with_equality [of "CseLocation_of_field 0"
      "CseLocation_of_special GENERAL_MEMORY_BARRIER"
      "\<lparr>opcode = 82, slot = 4096\<rparr>" "\<lparr>opcode = 82, slot = 4096\<rparr>"]
  by (simp add: loc_eq_def field_def CseLocation_of_field_def CseLocation_of_special_def
      barrier_eq_def Barrier_field_def BarrierHasher_def)

section \<open>Properties of \<open>should_rename\<close>\<close>

lemma strstr_sublist: "strstr h n \<noteq> None \<longleftrightarrow> sublist n h"
  by (induction h) (auto simp: sublist_Cons_right)

lemma strrchr_None: "strrchr s c = None \<longleftrightarrow> c \<notin> set s"
  by (induction s) (auto split: option.splits)

lemma strrchr_last: "c \<notin> set t \<Longrightarrow> strrchr (a @ c # t) c = Some (c # t)"
proof (induction a)
  case Nil
  then have "strrchr t c = None" by (simp add: strrchr_None)
  then show ?case by simp
next
  case (Cons x a)
  then show ?case by simp
qed

lemma strrchr_Some: "strrchr s c = Some r \<Longrightarrow> \<exists>a t. s = a @ c # t \<and> c \<notin> set t \<and> r = c # t"
proof (induction s)
  case Nil
  then show ?case by simp
next
  case (Cons x s)
  show ?case
  proof (cases "strrchr s c")
    case None
    with Cons.prems have "x = c" "r = x # s" by (simp_all split: if_splits)
    moreover from None have "c \<notin> set s" by (simp add: strrchr_None)
    ultimately have "x # s = [] @ c # s \<and> c \<notin> set s \<and> r = c # s" by simp
    then show ?thesis by blast
  next
    case (Some r')
    with Cons.prems have "r' = r" by simp
    with Some Cons.IH obtain a t where "s = a @ c # t" "c \<notin> set t" "r = c # t" by blast
    then have "x # s = (x # a) @ c # t \<and> c \<notin> set t \<and> r = c # t" by simp
    then show ?thesis by blast
  qed
qed

lemma not_digit_NUL: "\<not> is_digit (CHR 0x00)"
  by (simp add: is_digit_def)

lemma anonymous_check_iff: "anonymous_check s \<longleftrightarrow> dollar_digit_name s"
proof
  assume "anonymous_check s"
  then obtain r where r: "strrchr s (CHR ''$'') = Some r" and d: "is_digit (next_char r)"
    by (auto simp: anonymous_check_def split: option.splits)
  from strrchr_Some [OF r] obtain a t where
    s: "s = a @ CHR ''$'' # t" and t: "CHR ''$'' \<notin> set t" and rt: "r = CHR ''$'' # t" by blast
  from d rt obtain v t' where t': "t = v # t'" and "is_digit v"
    by (cases t) (auto simp: not_digit_NUL)
  with s t show "dollar_digit_name s" unfolding dollar_digit_name_def by blast
next
  assume "dollar_digit_name s"
  then obtain a d r where s: "s = a @ CHR ''$'' # d # r" and n: "CHR ''$'' \<notin> set (d # r)"
    and d: "is_digit d" unfolding dollar_digit_name_def by blast
  from strrchr_last [OF n, of a] s have "strrchr s (CHR ''$'') = Some (CHR ''$'' # d # r)" by simp
  with d show "anonymous_check s" by (simp add: anonymous_check_def)
qed

lemma match_patterns_fst: "fst (match_patterns s ps st) \<longleftrightarrow> matches_pattern s ps"
proof (induction ps)
  case Nil
  show ?case by (simp add: matches_pattern_def)
next
  case (Cons p ps)
  have "matches_pattern s (p # ps) \<longleftrightarrow> sublist (c_str p) s \<or> matches_pattern s ps"
    by (auto simp: matches_pattern_def)
  with Cons show ?case using strstr_sublist [of s "c_str p"] by auto
qed

lemma match_patterns_False: "\<not> fst (match_patterns s ps st) \<Longrightarrow> match_patterns s ps st = (False, st)"
  by (induction ps) (auto split: if_splits)

lemma should_rename_fst:
  "fst (should_rename clazz pre post st) \<longleftrightarrow>
     dollar_digit_name (name clazz) \<or> matches_pattern (name clazz) pre
     \<or> (can_rename clazz \<and> matches_pattern (name clazz) post)"
proof (cases "anonymous_check (name clazz)")
  case True
  then show ?thesis by (simp add: should_rename_def anonymous_check_iff)
next
  case False
  show ?thesis
  proof (cases "fst (match_patterns (name clazz) pre st)")
    case True
    then obtain st' where "match_patterns (name clazz) pre st = (True, st')"
      by (cases "match_patterns (name clazz) pre st") simp
    moreover from True have "matches_pattern (name clazz) pre" by (simp add: match_patterns_fst)
    ultimately show ?thesis using False
      by (simp add: should_rename_def)
  next
    case nm: False
    from match_patterns_False [OF nm] False nm show ?thesis
      using match_patterns_fst [of "name clazz" post st] match_patterns_fst [of "name clazz" pre st]
      by (simp add: should_rename_def anonymous_check_iff)
  qed
qed

lemma should_rename_early:
  assumes "dollar_digit_name (name clazz) \<or> matches_pattern (name clazz) pre"
  shows "should_rename (clazz\<lparr>can_rename := cr\<rparr>) pre post st = should_rename clazz pre post st"
proof (cases "anonymous_check (name clazz)")
  case True
  then show ?thesis by (simp add: should_rename_def)
next
  case False
  with assms have "fst (match_patterns (name clazz) pre st)"
    by (simp add: anonymous_check_iff match_patterns_fst)
  then obtain st' where "match_patterns (name clazz) pre st = (True, st')"
    by (cases "match_patterns (name clazz) pre st") simp
  with False show ?thesis by (simp add: should_rename_def)
qed

text \<open>
  C10: \<open>should_rename\<close> answers true for every class whose name has a last
  \<open>$\<close> directly followed by a decimal digit and for every class whose name
  contains a pre-pattern, whatever \<^verbatim>\<open>can_rename\<close> says;
  \<^verbatim>\<open>can_rename\<close> only guards the post-pattern check.
\<close>

theorem should_rename_guard_placement:
  "(dollar_digit_name (name clazz) \<or> matches_pattern (name clazz) pre \<longrightarrow>
      fst (should_rename (clazz\<lparr>can_rename := cr\<rparr>) pre post st)
      \<and> should_rename (clazz\<lparr>can_rename := cr\<rparr>) pre post st = should_rename clazz pre post st)
   \<and> (fst (should_rename clazz pre post st) \<longleftrightarrow>
        dollar_digit_name (name clazz) \<or> matches_pattern (name clazz) pre
        \<or> (can_rename clazz \<and> matches_pattern (name clazz) post))"
proof (intro conjI impI)
  assume a: "dollar_digit_name (name clazz) \<or> matches_pattern (name clazz) pre"
  then show "fst (should_rename (clazz\<lparr>can_rename := cr\<rparr>) pre post st)"
    using should_rename_fst [of "clazz\<lparr>can_rename := cr\<rparr>" pre post st] by auto
  from a show "should_rename (clazz\<lparr>can_rename := cr\<rparr>) pre post st = should_rename clazz pre post st"
    by (rule should_rename_early)
next
  show "fst (should_rename clazz pre post st) \<longleftrightarrow>
        dollar_digit_name (name clazz) \<or> matches_pattern (name clazz) pre
        \<or> (can_rename clazz \<and> matches_pattern (name clazz) post)"
    by (rule should_rename_fst)
qed

lemma dollar_digit_example: "dollar_digit_name ''Lcom/foo/Bar$1;''"
  unfolding dollar_digit_name_def
  by (rule exI [of _ "''Lcom/foo/Bar''"], rule exI [of _ "CHR ''1''"], rule exI [of _ "'';''"])
     (simp add: is_digit_def)

theorem should_rename_guard_placement_witness:
  "dollar_digit_name ''Lcom/foo/Bar$1;''
   \<and> should_rename \<lparr>name = ''Lcom/foo/Bar$1;'', can_rename = False\<rparr> [''/qux/''] [''com/'']
        \<lparr>match_short = 0, match_long = 0, match_inner = 0\<rparr>
      = (True, \<lparr>match_short = 0, match_long = 0, match_inner = 1\<rparr>)
   \<and> fst (should_rename \<lparr>name = ''Lcom/foo/Bar;'', can_rename = False\<rparr> [''/foo/''] [''com/'']
        \<lparr>match_short = 0, match_long = 0, match_inner = 0\<rparr>)
   \<and> \<not> fst (should_rename \<lparr>name = ''Lcom/foo/Bar;'', can_rename = False\<rparr> [''/qux/''] [''com/'']
        \<lparr>match_short = 0, match_long = 0, match_inner = 0\<rparr>)"
  using should_rename_guard_placement [of "\<lparr>name = ''Lcom/foo/Bar$1;'', can_rename = True\<rparr>"
      "[''/qux/'']" False "[''com/'']" "\<lparr>match_short = 0, match_long = 0, match_inner = 0\<rparr>"]
    dollar_digit_example
  by (simp add: should_rename_def anonymous_check_def is_digit_def c_str_def)

section \<open>Properties of the per-method scan\<close>

lemma pass_through_insn:
  "\<not> may_write_memory env i \<Longrightarrow> \<not> is_forwardable env i \<Longrightarrow> process_insn env i s = s"
  by (simp add: process_insn_def forwarding_check_def barrier_check_def barrier_location_def)

lemma pass_through_block:
  "\<forall>i\<in>set is. \<not> may_write_memory env i \<and> \<not> is_forwardable env i \<Longrightarrow> scan_block env is s = s"
  unfolding scan_block_def
  by (induction "is" arbitrary: s) (simp_all add: pass_through_insn)

lemma scan_block_Cons:
  "scan_block env (x # xs) s = scan_block env xs (process_insn env x s)"
  by (simp add: scan_block_def)

lemma field_read_first:
  assumes "kind r1 = FieldRead f"
  shows "process_insn env r1 \<lparr>table = [], forwards = []\<rparr>
         = \<lparr>table = [(signature_of [] r1, new_entry [] r1)], forwards = []\<rparr>"
  using assms
  by (simp add: process_insn_def forwarding_check_def barrier_check_def barrier_location_def
      may_write_memory_def is_forwardable_def)

lemma field_read_second:
  assumes "kind r2 = FieldRead f" and "signature_of [] r2 = sg"
  shows "process_insn env r2 \<lparr>table = [(sg, e)], forwards = []\<rparr>
         = \<lparr>table = [(sg, e)], forwards = [\<lparr>earlier_insn = producer e, insn = ident r2\<rparr>]\<rparr>"
  using assms
  by (simp add: process_insn_def forwarding_check_def barrier_check_def barrier_location_def
      may_write_memory_def is_forwardable_def)

lemma two_reads_forward:
  assumes k1: "kind r1 = FieldRead f" and k2: "kind r2 = FieldRead f"
    and op: "insn_opcode r1 = insn_opcode r2" and ss: "srcs r1 = srcs r2"
    and mid: "\<forall>i\<in>set mid. \<not> may_write_memory env i \<and> \<not> is_forwardable env i"
  shows "scan_block env (r1 # mid @ [r2]) \<lparr>table = [], forwards = []\<rparr>
         = \<lparr>table = [(signature_of [] r1, new_entry [] r1)],
            forwards = [\<lparr>earlier_insn = ident r1, insn = ident r2\<rparr>]\<rparr>"
proof -
  have sg: "signature_of [] r2 = signature_of [] r1"
    using k1 k2 op ss by (simp add: signature_of_def)
  have "scan_block env (r1 # mid @ [r2]) \<lparr>table = [], forwards = []\<rparr>
        = process_insn env r2 (scan_block env mid (process_insn env r1 \<lparr>table = [], forwards = []\<rparr>))"
    by (simp add: scan_block_def)
  also have "\<dots> = process_insn env r2 \<lparr>table = [(signature_of [] r1, new_entry [] r1)], forwards = []\<rparr>"
    by (simp add: field_read_first [OF k1] pass_through_block [OF mid])
  also have "\<dots> = \<lparr>table = [(signature_of [] r1, new_entry [] r1)],
            forwards = [\<lparr>earlier_insn = producer (new_entry [] r1), insn = ident r2\<rparr>]\<rparr>"
    by (rule field_read_second [OF k2 sg])
  finally show ?thesis by (simp add: new_entry_def)
qed

lemma entry_table_no_preds: "entry_table exits [] = []"
  by (simp add: entry_table_def)

lemma count_eliminated_one:
  assumes d: "distinct (map ident (r1 # mid @ [r2]))"
  shows "instructions_eliminated
           (count_eliminated [\<lparr>earlier_insn = ident r1, insn = ident r2\<rparr>]
              [\<lparr>block_id = b, preds = [], insns = r1 # mid @ [r2]\<rparr>] st)
         = instructions_eliminated st + 1"
proof -
  have m: "filter (is_forwarded [\<lparr>earlier_insn = ident r1, insn = ident r2\<rparr>]) mid = []"
    using d by (auto simp: is_forwarded_def filter_empty_conv)
  have "filter (is_forwarded [\<lparr>earlier_insn = ident r1, insn = ident r2\<rparr>]) (r1 # mid @ [r2]) = [r2]"
    using d m by (auto simp: is_forwarded_def)
  then show ?thesis by (simp add: count_eliminated_def)
qed

text \<open>
  C7: a method body that reads the same field twice (same operation, same operands), with
  nothing in between that writes memory or is itself forwardable, makes the analysis
  record exactly one \<open>Forward\<close>, pairing the second read with the first, and
  the patch step reports one eliminated instruction.
\<close>

theorem scenario_two_field_reads:
  assumes k1: "kind r1 = FieldRead f" and k2: "kind r2 = FieldRead f"
    and op: "insn_opcode r1 = insn_opcode r2" and ss: "srcs r1 = srcs r2"
    and mid: "\<forall>i\<in>set mid. \<not> may_write_memory env i \<and> \<not> is_forwardable env i"
    and d: "distinct (map ident (r1 # mid @ [r2]))"
  shows "m_forward (CommonSubexpressionElimination env
            [\<lparr>block_id = b, preds = [], insns = r1 # mid @ [r2]\<rparr>])
           = [\<lparr>earlier_insn = ident r1, insn = ident r2\<rparr>]
       \<and> instructions_eliminated (get_stats (snd (patch
            (CommonSubexpressionElimination env
               [\<lparr>block_id = b, preds = [], insns = r1 # mid @ [r2]\<rparr>]) mk_check False))) = 1"
proof -
  let ?cfg = "[\<lparr>block_id = b, preds = [], insns = r1 # mid @ [r2]\<rparr>]"
  have f: "m_forward (CommonSubexpressionElimination env ?cfg)
           = [\<lparr>earlier_insn = ident r1, insn = ident r2\<rparr>]"
    by (simp add: CommonSubexpressionElimination_def entry_table_no_preds
        two_reads_forward [OF k1 k2 op ss mid])
  moreover have "m_cfg (CommonSubexpressionElimination env ?cfg) = ?cfg"
    and "instructions_eliminated (m_stats (CommonSubexpressionElimination env ?cfg)) = 0"
    by (simp_all add: CommonSubexpressionElimination_def Stats_init_def)
  ultimately show ?thesis
    using count_eliminated_one [OF d, of b "m_stats (CommonSubexpressionElimination env ?cfg)"]
    by (simp add: patch_def get_stats_def)
qed

theorem scenario_two_field_reads_witness:
  "m_forward (CommonSubexpressionElimination
       \<lparr>shared_state = \<lparr>m_pure_methods = {}, m_safe_methods = {}, m_barriers = Map.empty,
              m_method_written_locations = Map.empty, m_method_override_graph = []\<rparr>,
            resolve_exact = (\<lambda>t m. None), exact_scope_at = (\<lambda>i. None)\<rparr>
       [\<lparr>block_id = 0, preds = [],
         insns = [\<lparr>ident = 1, insn_opcode = 82, kind = FieldRead 4096, srcs = [0]\<rparr>,
                  \<lparr>ident = 2, insn_opcode = 34, kind = Allocation, srcs = []\<rparr>,
                  \<lparr>ident = 3, insn_opcode = 82, kind = FieldRead 4096, srcs = [0]\<rparr>]\<rparr>])
     = [\<lparr>earlier_insn = 1, insn = 3\<rparr>]
   \<and> instructions_eliminated (get_stats (snd (patch (CommonSubexpressionElimination
       \<lparr>shared_state = \<lparr>m_pure_methods = {}, m_safe_methods = {}, m_barriers = Map.empty,
              m_method_written_locations = Map.empty, m_method_override_graph = []\<rparr>,
            resolve_exact = (\<lambda>t m. None), exact_scope_at = (\<lambda>i. None)\<rparr>
       [\<lparr>block_id = 0, preds = [],
         insns = [\<lparr>ident = 1, insn_opcode = 82, kind = FieldRead 4096, srcs = [0]\<rparr>,
                  \<lparr>ident = 2, insn_opcode = 34, kind = Allocation, srcs = []\<rparr>,
                  \<lparr>ident = 3, insn_opcode = 82, kind = FieldRead 4096, srcs = [0]\<rparr>]\<rparr>])
       (\<lambda>f. []) False))) = 1"
  using scenario_two_field_reads [of
      "\<lparr>ident = 1, insn_opcode = 82, kind = FieldRead 4096, srcs = [0]\<rparr>" 4096
      "\<lparr>ident = 3, insn_opcode = 82, kind = FieldRead 4096, srcs = [0]\<rparr>"
      "[\<lparr>ident = 2, insn_opcode = 34, kind = Allocation, srcs = []\<rparr>]"
      "\<lparr>shared_state = \<lparr>m_pure_methods = {}, m_safe_methods = {}, m_barriers = Map.empty,
              m_method_written_locations = Map.empty, m_method_override_graph = []\<rparr>,
            resolve_exact = (\<lambda>t m. None), exact_scope_at = (\<lambda>i. None)\<rparr>" 0 "\<lambda>f. []"]
  by (simp add: may_write_memory_def is_forwardable_def)

lemma forwardable_not_barrier: "is_forwardable env i \<Longrightarrow> \<not> may_write_memory env i"
  by (auto simp: is_forwardable_def may_write_memory_def split: insn_kind.splits)

lemma barrier_check_subset: "set (barrier_check env W T) \<subseteq> set T"
  by (auto simp: barrier_check_def split: option.splits)

lemma process_insn_entries:
  "x \<in> set (table (process_insn env i s)) \<Longrightarrow> x \<in> set (table s) \<or> producer (snd x) = ident i"
  using barrier_check_subset [of env i "table s"]
  by (auto simp: process_insn_def forwarding_check_def new_entry_def split: if_splits option.splits)

lemma scan_block_entries:
  "x \<in> set (table (scan_block env is s)) \<Longrightarrow> x \<in> set (table s) \<or> producer (snd x) \<in> ident ` set is"
proof (induction "is" arbitrary: s)
  case Nil
  then show ?case by (simp add: scan_block_def)
next
  case (Cons i "is")
  from Cons.prems have "x \<in> set (table (scan_block env is (process_insn env i s)))"
    by (simp add: scan_block_Cons)
  from Cons.IH [OF this] process_insn_entries [of x env i s] show ?case by auto
qed

lemma those_Some_nth:
  "those xs = Some ys \<Longrightarrow> map Some ys = xs"
  by (induction xs arbitrary: ys) (auto split: option.splits)

lemma entry_table_subset:
  assumes x: "x \<in> set (entry_table exits ps)" and p: "p \<in> set ps"
  shows "\<exists>t. exits p = Some t \<and> x \<in> set t"
proof -
  from x obtain t ts where th: "those (map exits ps) = Some (t # ts)"
    and xt: "x \<in> set t" and all: "list_all (\<lambda>u. x \<in> set u) ts"
    by (cases "those (map exits ps)")
       (auto simp: entry_table_def split: list.splits)
  from those_Some_nth [OF th] have m: "map exits ps = map Some (t # ts)" by simp
  from p have "exits p \<in> set (map exits ps)" by simp
  with m have "exits p \<in> Some ` set (t # ts)" by simp
  then obtain u where "exits p = Some u" "u \<in> set (t # ts)" by auto
  with xt all show ?thesis by (auto simp: list_all_iff)
qed

lemma loc_eq_iff: "loc_eq a b \<longleftrightarrow> a = b"
  by (auto simp: loc_eq_def field_def intro: CseLocation.equality)

lemma depends_on_general: "depends_on e general_memory_barrier \<longleftrightarrow> depends e \<noteq> []"
  by (cases "depends e") (simp_all add: depends_on_def invalidates_def loc_eq_iff)

lemma depends_on_specific:
  "L \<noteq> general_memory_barrier \<Longrightarrow> depends_on e L \<longleftrightarrow> L \<in> set (depends e)"
  by (auto simp: depends_on_def invalidates_def loc_eq_iff list_ex_iff)

lemma depends_on_nonempty: "depends_on e L \<Longrightarrow> depends e \<noteq> []"
  by (auto simp: depends_on_def list_ex_iff)

lemma tracked_locations_member:
  "x \<in> set T \<Longrightarrow> d \<in> set (depends (snd x)) \<Longrightarrow> d \<in> tracked_locations T"
  by (auto simp: tracked_locations_def)

lemma array_location_not_general:
  "CseLocation_of_special (array_component_location c) \<noteq> general_memory_barrier"
  by (cases c) (simp_all add: CseLocation_of_special_def)

lemma real_field_not_general:
  "\<not> in_special_range f \<Longrightarrow> CseLocation_of_field f \<noteq> general_memory_barrier"
  by (auto simp: CseLocation_of_field_def CseLocation_of_special_def in_special_range_def)

text \<open>The query has no error result.\<close>

lemma query_never_fails:
  "\<exists>answer. get_relevant_written_location st rslv i ex reads = Inr answer"
  by (simp add: get_relevant_written_location_def
      split: insn_kind.splits sum.splits method_class.splits option.splits)

lemma query_None_writes:
  assumes w: "writes_location st rslv i ex L"
    and q: "get_relevant_written_location st rslv i ex reads = Inr None"
  shows "L \<notin> reads \<and> L \<noteq> general_memory_barrier"
  using w
proof cases
  case (field_store f)
  with q show ?thesis
    by (simp add: get_relevant_written_location_def relevant_store_def loc_eq_iff split: if_splits)
next
  case (array_store c)
  with q show ?thesis
    by (simp add: get_relevant_written_location_def relevant_store_def loc_eq_iff split: if_splits)
next
  case monitor_operation
  with q show ?thesis by (simp add: get_relevant_written_location_def)
next
  case (target_not_found m e)
  with q show ?thesis by (simp add: get_relevant_written_location_def)
next
  case (unknown_receiver m)
  with q show ?thesis
    by (simp add: get_relevant_written_location_def callee_of_def classify_def)
next
  case (callee_effect m c)
  with q show ?thesis
    by (cases ex)
       (auto simp: get_relevant_written_location_def classify_def consult_effects_def
          split: if_splits)
qed

text \<open>The answer of the query, for a Location the instruction writes.\<close>

lemma relevant_answer:
  assumes w: "writes_location st rslv W ex L"
  shows "(get_relevant_written_location st rslv W ex reads = Inr None
            \<and> L \<notin> reads \<and> L \<noteq> general_memory_barrier)
         \<or> get_relevant_written_location st rslv W ex reads = Inr (Some general_memory_barrier)
         \<or> get_relevant_written_location st rslv W ex reads = Inr (Some L)"
  using w
proof cases
  case (field_store f)
  then show ?thesis
    by (simp add: get_relevant_written_location_def relevant_store_def loc_eq_iff)
next
  case (array_store c)
  then show ?thesis
    by (simp add: get_relevant_written_location_def relevant_store_def loc_eq_iff)
next
  case monitor_operation
  then show ?thesis by (simp add: get_relevant_written_location_def)
next
  case (target_not_found m e)
  then show ?thesis by (simp add: get_relevant_written_location_def)
next
  case (unknown_receiver m)
  then show ?thesis
    by (simp add: get_relevant_written_location_def callee_of_def classify_def)
next
  case (callee_effect m c)
  then show ?thesis
    by (cases ex)
       (auto simp: get_relevant_written_location_def classify_def consult_effects_def)
qed

lemma written_may_write:
  assumes "writes_location (shared_state env) (resolve_exact env) W (exact_scope_at env (ident W)) L"
  shows "may_write_memory env W"
  using assms
proof cases
  case (unknown_receiver m)
  then show ?thesis
    by (simp add: may_write_memory_def env_invoke_class_def invoke_class_def callee_of_def
        classify_def)
next
  case (callee_effect m c)
  then show ?thesis
    by (simp add: may_write_memory_def env_invoke_class_def invoke_class_def classify_def)
qed (simp_all add: may_write_memory_def env_invoke_class_def invoke_class_def)

text \<open>
  What the barrier check leaves of the table, for an instruction that may write memory.
\<close>

lemma barrier_step_table:
  assumes mw: "may_write_memory env W"
  shows "table (process_insn env W s)
         = (case get_relevant_written_location (shared_state env) (resolve_exact env) W
                  (exact_scope_at env (ident W)) (tracked_locations (table s)) of
              Inr None \<Rightarrow> table s
            | Inr (Some L') \<Rightarrow> filter (\<lambda>x. \<not> depends_on (snd x) L') (table s)
            | Inl e \<Rightarrow> filter (\<lambda>x. \<not> depends_on (snd x) general_memory_barrier) (table s))"
proof -
  from mw have nf: "\<not> is_forwardable env W" using forwardable_not_barrier by blast
  show ?thesis
    using nf mw
    by (simp add: process_insn_def forwarding_check_def barrier_check_def barrier_location_def
        split: sum.splits option.splits)
qed

lemma written_location_invalidated:
  assumes L: "writes_location (shared_state env) (resolve_exact env) W (exact_scope_at env (ident W)) L"
    and x: "x \<in> set (table (process_insn env W s))"
  shows "\<not> depends_on (snd x) L"
proof -
  have mw: "may_write_memory env W" using L by (rule written_may_write)
  let ?q = "get_relevant_written_location (shared_state env) (resolve_exact env) W
                (exact_scope_at env (ident W)) (tracked_locations (table s))"
  note tab = barrier_step_table [OF mw, of s]
  from relevant_answer [OF L, of "tracked_locations (table s)"] show ?thesis
  proof (elim disjE conjE)
    assume q: "?q = Inr None" and nt: "L \<notin> tracked_locations (table s)"
      and ng: "L \<noteq> general_memory_barrier"
    from x tab q have "x \<in> set (table s)" by simp
    with nt have "L \<notin> set (depends (snd x))" using tracked_locations_member by blast
    with ng show ?thesis by (simp add: depends_on_specific)
  next
    assume q: "?q = Inr (Some general_memory_barrier)"
    from x tab q have "\<not> depends_on (snd x) general_memory_barrier" by simp
    then have "depends (snd x) = []" by (simp add: depends_on_general)
    then show ?thesis using depends_on_nonempty by blast
  next
    assume q: "?q = Inr (Some L)"
    from x tab q show ?thesis by simp
  qed
qed


lemma map_le_fresh_update: "m k = None \<Longrightarrow> m \<subseteq>\<^sub>m m(k \<mapsto> v)"
  by (auto simp: map_le_def)

lemma map_le_lookup: "m \<subseteq>\<^sub>m m' \<Longrightarrow> m k = Some v \<Longrightarrow> m' k = Some v"
  unfolding map_le_def by (drule bspec [of _ _ k]) auto

lemma fresh_after_update:
  assumes "\<forall>b\<in>set (c # cs). exits (block_id b) = None" and "distinct (map block_id (c # cs))"
  shows "\<forall>b\<in>set cs. (exits(block_id c \<mapsto> v)) (block_id b) = None"
proof
  fix b assume b: "b \<in> set cs"
  with assms(2) have "block_id b \<noteq> block_id c" by (auto simp: image_iff)
  with assms(1) b show "(exits(block_id c \<mapsto> v)) (block_id b) = None" by simp
qed

lemma scan_blocks_exits_grow:
  assumes "\<forall>b\<in>set bs. exits (block_id b) = None" and "distinct (map block_id bs)"
  shows "exits \<subseteq>\<^sub>m fst (scan_blocks env bs exits fw)"
  using assms
proof (induction bs arbitrary: exits fw)
  case Nil
  show ?case by simp
next
  case (Cons c cs)
  let ?s = "scan_block env (insns c) \<lparr>table = entry_table exits (preds c), forwards = fw\<rparr>"
  let ?exits1 = "exits(block_id c \<mapsto> table ?s)"
  from Cons.prems have fresh: "\<forall>b\<in>set cs. ?exits1 (block_id b) = None"
    by (rule fresh_after_update)
  from Cons.prems(2) have d: "distinct (map block_id cs)" by simp
  from Cons.prems(1) have "exits (block_id c) = None" by simp
  then have "exits \<subseteq>\<^sub>m ?exits1" by (rule map_le_fresh_update)
  also have "?exits1 \<subseteq>\<^sub>m fst (scan_blocks env cs ?exits1 (forwards ?s))"
    by (rule Cons.IH [OF fresh d])
  finally show ?case by (simp add: Let_def)
qed

lemma scan_blocks_exit_of:
  assumes "\<forall>b\<in>set bs. exits (block_id b) = None" and "distinct (map block_id bs)"
    and "b \<in> set bs"
  shows "\<exists>ex fwb. ex \<subseteq>\<^sub>m fst (scan_blocks env bs exits fw)
           \<and> fst (scan_blocks env bs exits fw) (block_id b)
               = Some (table (scan_block env (insns b)
                    \<lparr>table = entry_table ex (preds b), forwards = fwb\<rparr>))"
  using assms
proof (induction bs arbitrary: exits fw)
  case Nil
  then show ?case by simp
next
  case (Cons c cs)
  let ?s = "scan_block env (insns c) \<lparr>table = entry_table exits (preds c), forwards = fw\<rparr>"
  let ?exits1 = "exits(block_id c \<mapsto> table ?s)"
  let ?final = "fst (scan_blocks env cs ?exits1 (forwards ?s))"
  have unfold: "fst (scan_blocks env (c # cs) exits fw) = ?final" by (simp add: Let_def)
  from Cons.prems(1,2) have fresh: "\<forall>b\<in>set cs. ?exits1 (block_id b) = None"
    by (rule fresh_after_update)
  from Cons.prems(2) have d: "distinct (map block_id cs)" by simp
  have grow: "?exits1 \<subseteq>\<^sub>m ?final" by (rule scan_blocks_exits_grow [OF fresh d])
  show ?case
  proof (cases "b = c")
    case True
    from Cons.prems(1) have "exits (block_id c) = None" by simp
    then have "exits \<subseteq>\<^sub>m ?exits1" by (rule map_le_fresh_update)
    then have 1: "exits \<subseteq>\<^sub>m ?final" using grow by (rule map_le_trans)
    have "?exits1 (block_id c) = Some (table ?s)" by simp
    with grow have 2: "?final (block_id c) = Some (table ?s)"
      by (rule map_le_lookup)
    show ?thesis unfolding unfold True
      by (rule exI [of _ exits], rule exI [of _ fw]) (intro conjI 1 2)
  next
    case False
    with Cons.prems(3) have "b \<in> set cs" by simp
    from Cons.IH [OF fresh d this, of "forwards ?s"] show ?thesis unfolding unfold .
  qed
qed

text \<open>A live entry at the exit of a block was created in it or is live at the exit of every predecessor.\<close>

lemma exit_entry_origin:
  assumes d: "distinct (map block_id cfg)" and b: "b \<in> set cfg"
    and t: "exit_tables env cfg (block_id b) = Some t" and x: "x \<in> set t"
  shows "producer (snd x) \<in> ident ` set (insns b)
         \<or> (\<forall>p\<in>set (preds b). \<exists>u. exit_tables env cfg p = Some u \<and> x \<in> set u)"
proof -
  have "\<forall>b\<in>set cfg. Map.empty (block_id b) = None" by simp
  then have "\<exists>ex fwb. ex \<subseteq>\<^sub>m exit_tables env cfg
      \<and> exit_tables env cfg (block_id b)
            = Some (table (scan_block env (insns b) \<lparr>table = entry_table ex (preds b), forwards = fwb\<rparr>))"
    unfolding exit_tables_def using d b by (rule scan_blocks_exit_of)
  then obtain ex fwb where
    le: "ex \<subseteq>\<^sub>m exit_tables env cfg"
    and e: "exit_tables env cfg (block_id b)
            = Some (table (scan_block env (insns b) \<lparr>table = entry_table ex (preds b), forwards = fwb\<rparr>))"
    by (elim exE conjE) (rule that)
  from e t x have "x \<in> set (table (scan_block env (insns b) \<lparr>table = entry_table ex (preds b), forwards = fwb\<rparr>))"
    by simp
  from scan_block_entries [OF this] show ?thesis
  proof
    assume "x \<in> set (table \<lparr>table = entry_table ex (preds b), forwards = fwb\<rparr>)"
    then have xe: "x \<in> set (entry_table ex (preds b))" by simp
    have "\<forall>p\<in>set (preds b). \<exists>u. exit_tables env cfg p = Some u \<and> x \<in> set u"
    proof
      fix p assume "p \<in> set (preds b)"
      from entry_table_subset [OF xe this] obtain u where u: "ex p = Some u" "x \<in> set u" by blast
      with le have "exit_tables env cfg p = Some u" by (simp add: map_le_lookup)
      with u show "\<exists>u. exit_tables env cfg p = Some u \<and> x \<in> set u" by blast
    qed
    then show ?thesis ..
  next
    assume "producer (snd x) \<in> ident ` set (insns b)"
    then show ?thesis ..
  qed
qed

lemma cfg_path_snoc:
  "cfg_path (bs @ [c]) \<longleftrightarrow> bs = [] \<or> (block_id (last bs) \<in> set (preds c) \<and> cfg_path bs)"
  by (induction bs rule: cfg_path.induct) auto

lemma path_entry_origin:
  assumes d: "distinct (map block_id cfg)"
    and p: "cfg_path (b0 # path)" and s: "set (b0 # path) \<subseteq> set cfg"
    and t: "exit_tables env cfg (block_id (last (b0 # path))) = Some t" and x: "x \<in> set t"
  shows "producer (snd x) \<in> (\<Union>b\<in>set path. ident ` set (insns b))
         \<or> (\<exists>u. exit_tables env cfg (block_id b0) = Some u \<and> x \<in> set u)"
  using p s t x
proof (induction path arbitrary: t rule: rev_induct)
  case Nil
  then show ?case by simp
next
  case (snoc c path)
  from snoc.prems(2) have c: "c \<in> set cfg" by simp
  from snoc.prems(3) have tc: "exit_tables env cfg (block_id c) = Some t" by simp
  from snoc.prems(1) have "cfg_path ((b0 # path) @ [c])" by simp
  then have pl: "block_id (last (b0 # path)) \<in> set (preds c)" and pp: "cfg_path (b0 # path)"
    unfolding cfg_path_snoc by simp_all
  from exit_entry_origin [OF d c tc snoc.prems(4)] show ?case
  proof
    assume "producer (snd x) \<in> ident ` set (insns c)"
    then show ?thesis by auto
  next
    assume "\<forall>p\<in>set (preds c). \<exists>u. exit_tables env cfg p = Some u \<and> x \<in> set u"
    with pl obtain u where u: "exit_tables env cfg (block_id (last (b0 # path))) = Some u"
      and xu: "x \<in> set u" by blast
    from snoc.prems(2) have sp: "set (b0 # path) \<subseteq> set cfg" by simp
    from snoc.IH [OF pp sp u xu] show ?thesis by auto
  qed
qed

lemma exit_table_of_block:
  assumes d: "distinct (map block_id cfg)" and b: "b \<in> set cfg"
  shows "\<exists>s. exit_tables env cfg (block_id b) = Some (table (scan_block env (insns b) s))"
proof -
  have "\<forall>b\<in>set cfg. Map.empty (block_id b) = None" by simp
  then have "\<exists>ex fwb. ex \<subseteq>\<^sub>m exit_tables env cfg
      \<and> exit_tables env cfg (block_id b)
            = Some (table (scan_block env (insns b) \<lparr>table = entry_table ex (preds b), forwards = fwb\<rparr>))"
    unfolding exit_tables_def using d b by (rule scan_blocks_exit_of)
  then show ?thesis by blast
qed


lemmas query_eval =
  get_relevant_written_location_def relevant_store_def consult_effects_def classify_def
  callee_of_def effect_set_def tracked_locations_def depends_on_def invalidates_def loc_eq_def
  field_def CseLocation_of_field_def CseLocation_of_special_def

lemma example_store_exit:
  "exit_tables example_env example_store_cfg 1
   = Some [((82, FieldRead 4096, [0], [CseLocation_of_field 4096]),
            \<lparr>value_id = 3, producer = 3, depends = [CseLocation_of_field 4096], operand_ids = [0]\<rparr>)]"
  by (simp add: exit_tables_def example_store_cfg_def example_env_def scan_block_def
      process_insn_def forwarding_check_def barrier_check_def barrier_location_def
      may_write_memory_def is_forwardable_def entry_table_def signature_of_def new_entry_def
      value_identity_def query_eval)

text \<open>
  Scenario 4: an invoke of a method outside the pure and safe sets, on a receiver of
  unknown type, is a general barrier, whatever the effect set of the method: the read
  after it is not forwarded. With the method in the safe set its effect set decides: it
  does not hold the field read, and the second read is forwarded.
\<close>

lemma example_unknown_receiver:
  "snd (scan_blocks (example_invoke_env {}) example_invoke_cfg Map.empty []) = []"
  by (simp add: example_invoke_cfg_def example_invoke_env_def scan_block_def
      process_insn_def forwarding_check_def barrier_check_def barrier_location_def
      may_write_memory_def is_forwardable_def env_invoke_class_def invoke_class_def
      entry_table_def signature_of_def new_entry_def value_identity_def query_eval)

lemma example_safe_invoke:
  "snd (scan_blocks (example_invoke_env {7}) example_invoke_cfg Map.empty [])
   = [\<lparr>earlier_insn = 1, insn = 3\<rparr>]"
  by (simp add: example_invoke_cfg_def example_invoke_env_def scan_block_def
      process_insn_def forwarding_check_def barrier_check_def barrier_location_def
      may_write_memory_def is_forwardable_def env_invoke_class_def invoke_class_def
      entry_table_def signature_of_def new_entry_def value_identity_def query_eval)

text \<open>
  A store to the null field, whose cell is the cell of the general barrier, invalidates
  every entry.
\<close>

lemma example_null_field_store:
  "snd (scan_blocks example_env
     [\<lparr>block_id = 0, preds = [],
       insns = [\<lparr>ident = 1, insn_opcode = 82, kind = FieldRead 4096, srcs = [0]\<rparr>,
                \<lparr>ident = 2, insn_opcode = 89, kind = FieldWrite 0, srcs = [0, 9]\<rparr>,
                \<lparr>ident = 3, insn_opcode = 82, kind = FieldRead 4096, srcs = [0]\<rparr>]\<rparr>]
     Map.empty []) = []"
  by (simp add: example_env_def scan_block_def
      process_insn_def forwarding_check_def barrier_check_def barrier_location_def
      may_write_memory_def is_forwardable_def
      entry_table_def signature_of_def new_entry_def value_identity_def query_eval)

text \<open>
  C6: when an instruction \<open>W\<close> writes Location \<open>L\<close>, every entry that depends on
  \<open>L\<close> and was live before \<open>W\<close> is absent right after \<open>W\<close> is processed, whatever
  the table was; from then on a live entry that depends on \<open>L\<close> was created by an
  instruction after \<open>W\<close>: at the end of the block, and at the exit of the last block of
  every path of the CFG that starts in the block of \<open>W\<close>. So no live entry depends on a
  Location written since the entry was created.
\<close>

theorem conservative_invalidation:
  assumes L: "writes_location (shared_state env) (resolve_exact env) W
                  (exact_scope_at env (ident W)) L"
  shows "(\<forall>x\<in>set (table s). depends_on (snd x) L \<longrightarrow> x \<notin> set (table (process_insn env W s)))
       \<and> (\<forall>x\<in>set (table (process_insn env W s)). \<not> depends_on (snd x) L)
       \<and> (\<forall>x\<in>set (table (scan_block env (pre @ W # post) s0)).
             depends_on (snd x) L \<longrightarrow> producer (snd x) \<in> ident ` set post)
       \<and> (distinct (map block_id cfg) \<and> set (b0 # path) \<subseteq> set cfg \<and> cfg_path (b0 # path)
            \<and> insns b0 = pre @ W # post \<longrightarrow>
            (\<forall>t x. exit_tables env cfg (block_id (last (b0 # path))) = Some t \<and> x \<in> set t
                   \<and> depends_on (snd x) L \<longrightarrow>
                 producer (snd x) \<in> ident ` set post \<union> (\<Union>b\<in>set path. ident ` set (insns b))))"
proof -
  have 2: "\<forall>x\<in>set (table (process_insn env W s)). \<not> depends_on (snd x) L" for s
    using written_location_invalidated [OF L] by blast
  then have 1: "\<forall>x\<in>set (table s). depends_on (snd x) L \<longrightarrow> x \<notin> set (table (process_insn env W s))"
    by blast
  have 3: "\<forall>x\<in>set (table (scan_block env (pre @ W # post) s0)).
             depends_on (snd x) L \<longrightarrow> producer (snd x) \<in> ident ` set post" for s0
  proof (intro ballI impI)
    fix x assume x: "x \<in> set (table (scan_block env (pre @ W # post) s0))" and dp: "depends_on (snd x) L"
    have "scan_block env (pre @ W # post) s0
          = scan_block env post (process_insn env W (scan_block env pre s0))"
      by (simp add: scan_block_def)
    with x scan_block_entries [of x env post "process_insn env W (scan_block env pre s0)"]
    have "x \<in> set (table (process_insn env W (scan_block env pre s0)))
          \<or> producer (snd x) \<in> ident ` set post"
      by simp
    with 2 dp show "producer (snd x) \<in> ident ` set post" by blast
  qed
  have 4: "distinct (map block_id cfg) \<and> set (b0 # path) \<subseteq> set cfg \<and> cfg_path (b0 # path)
            \<and> insns b0 = pre @ W # post \<longrightarrow>
            (\<forall>t x. exit_tables env cfg (block_id (last (b0 # path))) = Some t \<and> x \<in> set t
                   \<and> depends_on (snd x) L \<longrightarrow>
                 producer (snd x) \<in> ident ` set post \<union> (\<Union>b\<in>set path. ident ` set (insns b)))"
  proof (intro impI allI, elim conjE)
    fix t x
    assume d: "distinct (map block_id cfg)" and sub: "set (b0 # path) \<subseteq> set cfg"
      and p: "cfg_path (b0 # path)" and i0: "insns b0 = pre @ W # post"
      and t: "exit_tables env cfg (block_id (last (b0 # path))) = Some t" and x: "x \<in> set t"
      and dp: "depends_on (snd x) L"
    from path_entry_origin [OF d p sub t x]
    show "producer (snd x) \<in> ident ` set post \<union> (\<Union>b\<in>set path. ident ` set (insns b))"
    proof
      assume "producer (snd x) \<in> (\<Union>b\<in>set path. ident ` set (insns b))"
      then show ?thesis by blast
    next
      assume "\<exists>u. exit_tables env cfg (block_id b0) = Some u \<and> x \<in> set u"
      then obtain u where u: "exit_tables env cfg (block_id b0) = Some u" and xu: "x \<in> set u"
        by blast
      from sub have "b0 \<in> set cfg" by simp
      from exit_table_of_block [OF d this, of env] obtain s' where
        "exit_tables env cfg (block_id b0) = Some (table (scan_block env (insns b0) s'))" by blast
      with u xu i0 have "x \<in> set (table (scan_block env (pre @ W # post) s'))" by simp
      with 3 dp have "producer (snd x) \<in> ident ` set post" by blast
      then show ?thesis by blast
    qed
  qed
  from 1 2 3 4 show ?thesis by blast
qed

theorem conservative_invalidation_witness:
  "writes_location (shared_state (example_invoke_env {})) (resolve_exact (example_invoke_env {}))
      \<lparr>ident = 2, insn_opcode = 110, kind = Invoke 7, srcs = [0]\<rparr>
      (exact_scope_at (example_invoke_env {}) 2) general_memory_barrier
   \<and> table (process_insn (example_invoke_env {})
        \<lparr>ident = 2, insn_opcode = 110, kind = Invoke 7, srcs = [0]\<rparr>
        \<lparr>table = [((82, FieldRead 4096, [0], [CseLocation_of_field 4096]),
            \<lparr>value_id = 1, producer = 1, depends = [CseLocation_of_field 4096], operand_ids = [0]\<rparr>)],
         forwards = []\<rparr>) = []
   \<and> writes_location (shared_state example_env) (resolve_exact example_env)
      \<lparr>ident = 2, insn_opcode = 89, kind = FieldWrite 4096, srcs = [0, 9]\<rparr>
      (exact_scope_at example_env 2) (CseLocation_of_field 4096)
   \<and> table (process_insn example_env
        \<lparr>ident = 2, insn_opcode = 89, kind = FieldWrite 4096, srcs = [0, 9]\<rparr>
        \<lparr>table = [((82, FieldRead 4096, [0], [CseLocation_of_field 4096]),
            \<lparr>value_id = 1, producer = 1, depends = [CseLocation_of_field 4096], operand_ids = [0]\<rparr>)],
         forwards = []\<rparr>) = []
   \<and> exit_tables example_env example_store_cfg 1
      = Some [((82, FieldRead 4096, [0], [CseLocation_of_field 4096]),
            \<lparr>value_id = 3, producer = 3, depends = [CseLocation_of_field 4096], operand_ids = [0]\<rparr>)]
   \<and> snd (scan_blocks example_env example_store_cfg Map.empty []) = [\<lparr>earlier_insn = 3, insn = 4\<rparr>]"
proof -
  have w1: "writes_location (shared_state (example_invoke_env {})) (resolve_exact (example_invoke_env {}))
      \<lparr>ident = 2, insn_opcode = 110, kind = Invoke 7, srcs = [0]\<rparr>
      (exact_scope_at (example_invoke_env {})
         (ident \<lparr>ident = 2, insn_opcode = 110, kind = Invoke 7, srcs = [0]\<rparr>))
      general_memory_barrier"
    by (rule writes_location.unknown_receiver [of _ 7]) (simp_all add: example_invoke_env_def)
  have w2: "writes_location (shared_state example_env) (resolve_exact example_env)
      \<lparr>ident = 2, insn_opcode = 89, kind = FieldWrite 4096, srcs = [0, 9]\<rparr>
      (exact_scope_at example_env
         (ident \<lparr>ident = 2, insn_opcode = 89, kind = FieldWrite 4096, srcs = [0, 9]\<rparr>))
      (CseLocation_of_field 4096)"
    by (rule writes_location.field_store) simp
  from conservative_invalidation [OF w1, of
        "\<lparr>table = [((82, FieldRead 4096, [0], [CseLocation_of_field 4096]),
            \<lparr>value_id = 1, producer = 1, depends = [CseLocation_of_field 4096], operand_ids = [0]\<rparr>)],
         forwards = []\<rparr>"
        "[]" "[]" "\<lparr>table = [], forwards = []\<rparr>" "[]"
        "\<lparr>block_id = 0, preds = [], insns = []\<rparr>" "[]"]
  have t1: "table (process_insn (example_invoke_env {})
        \<lparr>ident = 2, insn_opcode = 110, kind = Invoke 7, srcs = [0]\<rparr>
        \<lparr>table = [((82, FieldRead 4096, [0], [CseLocation_of_field 4096]),
            \<lparr>value_id = 1, producer = 1, depends = [CseLocation_of_field 4096], operand_ids = [0]\<rparr>)],
         forwards = []\<rparr>) = []"
    by (simp add: example_invoke_env_def process_insn_def forwarding_check_def barrier_check_def
        barrier_location_def may_write_memory_def is_forwardable_def env_invoke_class_def
        invoke_class_def query_eval)
  from conservative_invalidation [OF w2, of
        "\<lparr>table = [((82, FieldRead 4096, [0], [CseLocation_of_field 4096]),
            \<lparr>value_id = 1, producer = 1, depends = [CseLocation_of_field 4096], operand_ids = [0]\<rparr>)],
         forwards = []\<rparr>"
        "[\<lparr>ident = 1, insn_opcode = 82, kind = FieldRead 4096, srcs = [0]\<rparr>]"
        "[\<lparr>ident = 3, insn_opcode = 82, kind = FieldRead 4096, srcs = [0]\<rparr>]"
        "\<lparr>table = [], forwards = []\<rparr>" example_store_cfg
        "\<lparr>block_id = 0, preds = [],
          insns = [\<lparr>ident = 1, insn_opcode = 82, kind = FieldRead 4096, srcs = [0]\<rparr>,
                \<lparr>ident = 2, insn_opcode = 89, kind = FieldWrite 4096, srcs = [0, 9]\<rparr>,
                \<lparr>ident = 3, insn_opcode = 82, kind = FieldRead 4096, srcs = [0]\<rparr>]\<rparr>"
        "[\<lparr>block_id = 1, preds = [0],
           insns = [\<lparr>ident = 4, insn_opcode = 82, kind = FieldRead 4096, srcs = [0]\<rparr>]\<rparr>]"]
    example_store_exit
  have t2: "table (process_insn example_env
        \<lparr>ident = 2, insn_opcode = 89, kind = FieldWrite 4096, srcs = [0, 9]\<rparr>
        \<lparr>table = [((82, FieldRead 4096, [0], [CseLocation_of_field 4096]),
            \<lparr>value_id = 1, producer = 1, depends = [CseLocation_of_field 4096], operand_ids = [0]\<rparr>)],
         forwards = []\<rparr>) = []
     \<and> snd (scan_blocks example_env example_store_cfg Map.empty []) = [\<lparr>earlier_insn = 3, insn = 4\<rparr>]"
    by (simp add: example_store_cfg_def example_env_def scan_block_def
      process_insn_def forwarding_check_def barrier_check_def barrier_location_def
      may_write_memory_def is_forwardable_def entry_table_def signature_of_def new_entry_def
      value_identity_def query_eval)
  from w1 t1 w2 t2 example_store_exit show ?thesis by simp
qed


section \<open>Properties of the effect fixpoint\<close>

lemma changed_methods_subset: "set (changed_methods ms succs E) \<subseteq> set ms"
  by (simp add: changed_methods_def)

lemma propagate_round_outside: "m \<notin> set ms \<Longrightarrow> propagate_round ms succs E m = E m"
  using changed_methods_subset [of ms succs E] by (auto simp: propagate_round_def)

lemma propagate_round_grows: "E m \<subseteq> propagate_round ms succs E m"
  by (auto simp: propagate_round_def union_with_successors_def)

lemma propagate_round_inside:
  "m \<in> set ms \<Longrightarrow> propagate_round ms succs E m = union_with_successors succs E m"
  by (auto simp: propagate_round_def changed_methods_def)

lemma propagate_round_bounded:
  assumes "\<forall>m. E m \<subseteq> U"
  shows "propagate_round ms succs E m \<subseteq> U"
  using assms by (auto simp: propagate_round_def union_with_successors_def)

lemma propagate_round_below:
  assumes le: "\<forall>m. E m \<subseteq> F m" and cl: "\<forall>m\<in>set ms. \<forall>s\<in>set (succs m). F s \<subseteq> F m"
  shows "propagate_round ms succs E m \<subseteq> F m"
proof (cases "m \<in> set ms")
  case True
  have "union_with_successors succs E m \<subseteq> F m"
  proof
    fix x assume "x \<in> union_with_successors succs E m"
    then consider "x \<in> E m" | s where "s \<in> set (succs m)" "x \<in> E s"
      by (auto simp: union_with_successors_def)
    then show "x \<in> F m"
    proof cases
      case 1
      with le show ?thesis by blast
    next
      case 2
      with le have "x \<in> F s" by blast
      with cl True 2 show ?thesis by blast
    qed
  qed
  with True show ?thesis by (simp add: propagate_round_inside)
next
  case False
  with le show ?thesis by (simp add: propagate_round_outside)
qed

lemma unsettled_decreases:
  assumes fin: "finite U" and bound: "\<forall>m. E m \<subseteq> U"
    and ch: "changed_methods ms succs E \<noteq> []"
  shows "unsettled ms U (propagate_round ms succs E) < unsettled ms U E"
proof -
  let ?E' = "propagate_round ms succs E"
  have le: "\<forall>m\<in>set ms. card (U - ?E' m) \<le> card (U - E m)"
  proof
    fix m
    have "U - ?E' m \<subseteq> U - E m" using propagate_round_grows [of E m ms succs] by blast
    then show "card (U - ?E' m) \<le> card (U - E m)" using fin by (simp add: card_mono)
  qed
  from ch obtain m0 where "m0 \<in> set (changed_methods ms succs E)"
    by (cases "changed_methods ms succs E") auto
  then have m0: "m0 \<in> set ms" and ne: "union_with_successors succs E m0 \<noteq> E m0"
    by (simp_all add: changed_methods_def)
  from m0 have e': "?E' m0 = union_with_successors succs E m0" by (rule propagate_round_inside)
  with ne propagate_round_grows [of E m0 ms succs] have "E m0 \<subset> ?E' m0" by auto
  moreover have "?E' m0 \<subseteq> U" using bound by (rule propagate_round_bounded)
  ultimately have "U - ?E' m0 \<subset> U - E m0" by blast
  then have "card (U - ?E' m0) < card (U - E m0)" using fin by (simp add: psubset_card_mono)
  with m0 have ex: "\<exists>m\<in>set ms. card (U - ?E' m) < card (U - E m)" by blast
  show ?thesis unfolding unsettled_def
    by (rule sum_strict_mono_ex1) (use le ex in simp_all)
qed

lemma effect_fixpoint_result:
  assumes fin: "finite U" and bound: "\<forall>m. E m \<subseteq> U"
  shows "\<exists>st' E'. effect_fixpoint ms succs E st = Some (st', E')
           \<and> changed_methods ms succs E' = []
           \<and> (\<forall>m. E m \<subseteq> E' m)
           \<and> (\<forall>m. m \<notin> set ms \<longrightarrow> E' m = E m)
           \<and> (\<forall>F. (\<forall>m. E m \<subseteq> F m) \<and> (\<forall>m\<in>set ms. \<forall>s\<in>set (succs m). F s \<subseteq> F m)
                 \<longrightarrow> (\<forall>m. E' m \<subseteq> F m))"
  using bound
proof (induction "unsettled ms U E" arbitrary: E st rule: less_induct)
  case less
  show ?case
  proof (cases "changed_methods ms succs E = []")
    case True
    then have "effect_fixpoint ms succs E st = Some (st, E)"
      by (subst effect_fixpoint.simps) simp
    with True show ?thesis by blast
  next
    case False
    let ?E1 = "propagate_round ms succs E"
    let ?st1 = "st\<lparr>inlined_barriers_iterations := inlined_barriers_iterations st + 1,
                 inlined_barriers_into_methods :=
                   inlined_barriers_into_methods st + length (changed_methods ms succs E)\<rparr>"
    have b1: "\<forall>m. ?E1 m \<subseteq> U" using less.prems propagate_round_bounded by blast
    have "unsettled ms U ?E1 < unsettled ms U E"
      using fin less.prems False by (rule unsettled_decreases)
    from less.hyps [OF this b1, of ?st1] obtain st' E' where
      r: "effect_fixpoint ms succs ?E1 ?st1 = Some (st', E')"
      and fx: "changed_methods ms succs E' = []"
      and gr: "\<forall>m. ?E1 m \<subseteq> E' m"
      and out: "\<forall>m. m \<notin> set ms \<longrightarrow> E' m = ?E1 m"
      and least: "\<forall>F. (\<forall>m. ?E1 m \<subseteq> F m) \<and> (\<forall>m\<in>set ms. \<forall>s\<in>set (succs m). F s \<subseteq> F m)
                 \<longrightarrow> (\<forall>m. E' m \<subseteq> F m)"
      by blast
    have 1: "effect_fixpoint ms succs E st = Some (st', E')"
      using False r by (subst effect_fixpoint.simps) simp
    have 2: "\<forall>m. E m \<subseteq> E' m" using gr propagate_round_grows [of E _ ms succs] by blast
    have 3: "\<forall>m. m \<notin> set ms \<longrightarrow> E' m = E m" using out by (simp add: propagate_round_outside)
    have 4: "\<forall>F. (\<forall>m. E m \<subseteq> F m) \<and> (\<forall>m\<in>set ms. \<forall>s\<in>set (succs m). F s \<subseteq> F m)
                 \<longrightarrow> (\<forall>m. E' m \<subseteq> F m)"
    proof (intro allI impI)
      fix F m
      assume a: "(\<forall>m. E m \<subseteq> F m) \<and> (\<forall>m\<in>set ms. \<forall>s\<in>set (succs m). F s \<subseteq> F m)"
      then have "\<forall>m. ?E1 m \<subseteq> F m" using propagate_round_below [of E F ms succs] by blast
      with a least show "E' m \<subseteq> F m" by blast
    qed
    from 1 fx 2 3 4 show ?thesis by blast
  qed
qed

lemma fixpoint_closed:
  assumes "changed_methods ms succs E = []" and "m \<in> set ms" and "s \<in> set (succs m)"
  shows "E s \<subseteq> E m"
proof -
  from assms(1,2) have "union_with_successors succs E m = E m"
    by (auto simp: changed_methods_def filter_empty_conv)
  with assms(3) show ?thesis by (auto simp: union_with_successors_def)
qed


lemma own_writes_outside:
  "m \<notin> set (map method_ref scope) \<Longrightarrow> own_writes scope m = {general_memory_barrier}"
  by (simp add: own_writes_def)

lemma own_writes_record:
  "d \<in> set scope \<Longrightarrow> record_writes d \<subseteq> own_writes scope (method_ref d)"
  by (auto simp: own_writes_def)

lemma own_writes_unresolvable:
  assumes "\<not> has_resolvable_body scope m"
  shows "general_memory_barrier \<in> own_writes scope m"
proof (cases "m \<in> set (map method_ref scope)")
  case False
  then show ?thesis by (simp add: own_writes_def)
next
  case True
  with assms obtain d where d: "d \<in> set scope" "method_ref d = m" "body_writes d = None"
    by (auto simp: has_resolvable_body_def list_all_iff)
  then have "general_memory_barrier \<in> record_writes d" by (simp add: record_writes_def)
  with d own_writes_record [of d scope] show ?thesis by blast
qed

lemma own_writes_bounded:
  "own_writes scope m \<subseteq> insert general_memory_barrier (\<Union>d\<in>set scope. record_writes d)"
  by (auto simp: own_writes_def)

lemma effect_set_published:
  assumes "\<forall>m. m \<notin> set (map method_ref scope) \<longrightarrow> E m = {general_memory_barrier}"
  shows "effect_set (m_method_written_locations (publish state scope E)) = E"
  using assms by (intro ext) (simp add: effect_set_def publish_def)

lemma init_method_barriers_result:
  "\<exists>stats E. init_method_barriers state scope = Some (stats, publish state scope E)
     \<and> effect_set (m_method_written_locations (publish state scope E)) = E
     \<and> changed_methods (map method_ref scope) (children (build_graph scope)) E = []
     \<and> (\<forall>m. own_writes scope m \<subseteq> E m)
     \<and> (\<forall>F. (\<forall>m. own_writes scope m \<subseteq> F m)
              \<and> (\<forall>m\<in>set (map method_ref scope). \<forall>s\<in>set (children (build_graph scope) m). F s \<subseteq> F m)
            \<longrightarrow> (\<forall>m. E m \<subseteq> F m))"
proof -
  let ?U = "insert general_memory_barrier (\<Union>d\<in>set scope. record_writes d)"
  let ?ms = "map method_ref scope"
  let ?succs = "children (build_graph scope)"
  have fin: "finite ?U" by (auto simp: record_writes_def split: option.splits)
  have b: "\<forall>m. own_writes scope m \<subseteq> ?U" using own_writes_bounded by blast
  from effect_fixpoint_result [OF fin b, where succs = ?succs and ms = ?ms
      and st = "\<lparr>inlined_barriers_iterations = 0, inlined_barriers_into_methods = 0\<rparr>"]
  obtain stats E where
    r: "effect_fixpoint ?ms ?succs (own_writes scope)
            \<lparr>inlined_barriers_iterations = 0, inlined_barriers_into_methods = 0\<rparr> = Some (stats, E)"
    and fx: "changed_methods ?ms ?succs E = []"
    and gr: "\<forall>m. own_writes scope m \<subseteq> E m"
    and out: "\<forall>m. m \<notin> set ?ms \<longrightarrow> E m = own_writes scope m"
    and least: "\<forall>F. (\<forall>m. own_writes scope m \<subseteq> F m) \<and> (\<forall>m\<in>set ?ms. \<forall>s\<in>set (?succs m). F s \<subseteq> F m)
                 \<longrightarrow> (\<forall>m. E m \<subseteq> F m)"
    by (elim exE conjE) (rule that)
  from r have i: "init_method_barriers state scope = Some (stats, publish state scope E)"
    by (simp add: init_method_barriers_def)
  have "\<forall>m. m \<notin> set ?ms \<longrightarrow> E m = {general_memory_barrier}"
  proof (intro allI impI)
    fix m assume m: "m \<notin> set ?ms"
    with out have "E m = own_writes scope m" by blast
    with m show "E m = {general_memory_barrier}"
      by (simp add: own_writes_outside)
  qed
  then have p: "effect_set (m_method_written_locations (publish state scope E)) = E"
    by (rule effect_set_published)
  show ?thesis
    by (rule exI [of _ stats], rule exI [of _ E]) (intro conjI i p fx gr least)
qed

lemma graph_edge_source:
  assumes "(m, s) \<in> graph_edges (build_graph scope)"
  shows "m \<in> set (map method_ref scope) \<and> s \<in> set (children (build_graph scope) m)"
proof -
  from assms have s: "s \<in> set (children (build_graph scope) m)" by (simp add: graph_edges_def)
  then have "m \<in> set (map method_ref scope)"
    by (auto simp: children_def build_graph_def)
  with s show ?thesis by simp
qed

lemma closed_reachable:
  assumes cl: "\<forall>m\<in>set (map method_ref scope). \<forall>s\<in>set (children (build_graph scope) m). E s \<subseteq> E m"
    and r: "(m, m') \<in> (graph_edges (build_graph scope))\<^sup>*"
  shows "E m' \<subseteq> E m"
  using r
proof (induction rule: rtrancl_induct)
  case base
  show ?case by simp
next
  case (step y z)
  from graph_edge_source [OF step.hyps(2)] cl have "E z \<subseteq> E y" by blast
  with step.IH show ?case by blast
qed

lemma add_override_edge_refs: "map method_ref (add_override_edge a b scope) = map method_ref scope"
  by (induction scope) (simp_all add: add_override_edge_def)

lemma add_override_edge_own_writes: "own_writes (add_override_edge a b scope) m = own_writes scope m"
proof -
  define g :: "ScopeMethod \<Rightarrow> ScopeMethod"
    where "g = (\<lambda>d. if method_ref d = a then d\<lparr>overridden_by := overridden_by d @ [b]\<rparr> else d)"
  have r: "method_ref (g d) = method_ref d" and w: "record_writes (g d) = record_writes d" for d
    by (simp_all add: g_def record_writes_def)
  have "(\<Union>d\<in>set (filter (\<lambda>d. method_ref d = m) (map g scope)). record_writes d)
        = (\<Union>d\<in>set (filter (\<lambda>d. method_ref d = m) scope). record_writes d)"
    by (induction scope) (simp_all add: r w)
  moreover have "add_override_edge a b scope = map g scope"
    by (simp add: add_override_edge_def g_def)
  moreover have "map method_ref (map g scope) = map method_ref scope"
    by (simp add: r)
  ultimately show ?thesis
    unfolding own_writes_def by presburger
qed

lemma add_override_edge_children:
  "set (children (build_graph scope) m) \<subseteq> set (children (build_graph (add_override_edge a b scope)) m)"
  by (induction scope) (auto simp: add_override_edge_def build_graph_def children_def)

text \<open>
  C4: \<open>init_method_barriers\<close> reaches its fixpoint and stores the override graph
  of the scope; then the effect set of every method contains its direct writes (the
  general barrier for a method with no resolvable body), the effect set of a method
  contains the effect set of every method reachable from it through the stored override
  graph, and with one more override edge no effect set is smaller.
\<close>

theorem effect_sets_closed_and_monotone:
  "\<exists>stats state'. init_method_barriers state scope = Some (stats, state')
     \<and> m_method_override_graph state' = build_graph scope
     \<and> (\<forall>d\<in>set scope. \<forall>ws. body_writes d = Some ws \<longrightarrow>
           set ws \<subseteq> effect_set (m_method_written_locations state') (method_ref d))
     \<and> (\<forall>m. \<not> has_resolvable_body scope m \<longrightarrow>
           general_memory_barrier \<in> effect_set (m_method_written_locations state') m)
     \<and> (\<forall>m m'. (m, m') \<in> (graph_edges (m_method_override_graph state'))\<^sup>* \<longrightarrow>
           effect_set (m_method_written_locations state') m'
             \<subseteq> effect_set (m_method_written_locations state') m)
     \<and> (\<exists>stats' state''.
           init_method_barriers state (add_override_edge a b scope) = Some (stats', state'')
           \<and> (\<forall>m. effect_set (m_method_written_locations state') m
                     \<subseteq> effect_set (m_method_written_locations state'') m))"
proof -
  let ?ms = "map method_ref scope"
  from init_method_barriers_result [of state scope] obtain stats E where
    i: "init_method_barriers state scope = Some (stats, publish state scope E)"
    and W: "effect_set (m_method_written_locations (publish state scope E)) = E"
    and fx: "changed_methods ?ms (children (build_graph scope)) E = []"
    and gr: "\<forall>m. own_writes scope m \<subseteq> E m"
    and least: "\<forall>F. (\<forall>m. own_writes scope m \<subseteq> F m)
              \<and> (\<forall>m\<in>set ?ms. \<forall>s\<in>set (children (build_graph scope) m). F s \<subseteq> F m)
            \<longrightarrow> (\<forall>m. E m \<subseteq> F m)"
    by (elim exE conjE) (rule that)
  let ?state' = "publish state scope E"
  have g: "m_method_override_graph ?state' = build_graph scope" by (simp add: publish_def)
  have cl: "\<forall>m\<in>set ?ms. \<forall>s\<in>set (children (build_graph scope) m). E s \<subseteq> E m"
    using fixpoint_closed [OF fx] by blast
  have 1: "\<forall>d\<in>set scope. \<forall>ws. body_writes d = Some ws \<longrightarrow>
           set ws \<subseteq> effect_set (m_method_written_locations ?state') (method_ref d)"
  proof (intro ballI allI impI)
    fix d ws assume d: "d \<in> set scope" and b: "body_writes d = Some ws"
    from b have "record_writes d = set ws" by (simp add: record_writes_def)
    with own_writes_record [OF d] have "set ws \<subseteq> own_writes scope (method_ref d)" by simp
    also have "\<dots> \<subseteq> E (method_ref d)" using gr by blast
    finally show "set ws \<subseteq> effect_set (m_method_written_locations ?state') (method_ref d)"
      unfolding W .
  qed
  have 2: "\<forall>m. \<not> has_resolvable_body scope m \<longrightarrow>
           general_memory_barrier \<in> effect_set (m_method_written_locations ?state') m"
  proof (intro allI impI)
    fix m assume "\<not> has_resolvable_body scope m"
    then have "general_memory_barrier \<in> own_writes scope m" by (rule own_writes_unresolvable)
    with gr have "general_memory_barrier \<in> E m" by blast
    then show "general_memory_barrier \<in> effect_set (m_method_written_locations ?state') m"
      unfolding W .
  qed
  have 3: "\<forall>m m'. (m, m') \<in> (graph_edges (m_method_override_graph ?state'))\<^sup>* \<longrightarrow>
           effect_set (m_method_written_locations ?state') m'
             \<subseteq> effect_set (m_method_written_locations ?state') m"
    unfolding W g using closed_reachable [OF cl] by blast
  let ?scope' = "add_override_edge a b scope"
  from init_method_barriers_result [of state ?scope'] obtain stats' E' where
    i': "init_method_barriers state ?scope' = Some (stats', publish state ?scope' E')"
    and W': "effect_set (m_method_written_locations (publish state ?scope' E')) = E'"
    and fx': "changed_methods (map method_ref ?scope') (children (build_graph ?scope')) E' = []"
    and gr': "\<forall>m. own_writes ?scope' m \<subseteq> E' m"
    by (elim exE conjE) (rule that)
  have cl': "\<forall>m\<in>set ?ms. \<forall>s\<in>set (children (build_graph ?scope') m). E' s \<subseteq> E' m"
    using fixpoint_closed [OF fx'] by (simp add: add_override_edge_refs)
  have "\<forall>m\<in>set ?ms. \<forall>s\<in>set (children (build_graph scope) m). E' s \<subseteq> E' m"
  proof (intro ballI)
    fix m s assume m: "m \<in> set ?ms" and s: "s \<in> set (children (build_graph scope) m)"
    from s add_override_edge_children [of scope m a b]
    have "s \<in> set (children (build_graph ?scope') m)" by blast
    with cl' m show "E' s \<subseteq> E' m" by blast
  qed
  moreover from gr' have "\<forall>m. own_writes scope m \<subseteq> E' m"
    by (simp add: add_override_edge_own_writes)
  ultimately have le: "\<forall>m. E m \<subseteq> E' m" using least [THEN spec, of E'] by simp
  have 4: "\<exists>stats' state''.
           init_method_barriers state ?scope' = Some (stats', state'')
           \<and> (\<forall>m. effect_set (m_method_written_locations ?state') m
                     \<subseteq> effect_set (m_method_written_locations state'') m)"
    by (rule exI [of _ stats'], rule exI [of _ "publish state ?scope' E'"])
       (use i' le in \<open>simp add: W W'\<close>)
  show ?thesis
    by (rule exI [of _ stats], rule exI [of _ ?state']) (intro conjI i g 1 2 3 4)
qed

lemma example_path: "(1, 3) \<in> (graph_edges (build_graph example_scope))\<^sup>*"
proof -
  have "(1, 2) \<in> graph_edges (build_graph example_scope)"
    and "(2, 3) \<in> graph_edges (build_graph example_scope)"
    by (simp_all add: graph_edges_def children_def build_graph_def example_scope_def)
  then show ?thesis by (meson rtrancl.rtrancl_into_rtrancl rtrancl.rtrancl_refl)
qed

theorem effect_sets_closed_and_monotone_witness:
  "\<exists>stats state'.
     init_method_barriers (shared_state example_env) example_scope = Some (stats, state')
     \<and> CseLocation_of_field 4096 \<in> effect_set (m_method_written_locations state') 3
     \<and> CseLocation_of_field 4096 \<in> effect_set (m_method_written_locations state') 1
     \<and> general_memory_barrier \<in> effect_set (m_method_written_locations state') 2
     \<and> general_memory_barrier \<in> effect_set (m_method_written_locations state') 1"
proof -
  from effect_sets_closed_and_monotone [of "shared_state example_env" example_scope 1 3]
  obtain stats state' where
    i: "init_method_barriers (shared_state example_env) example_scope = Some (stats, state')"
    and g: "m_method_override_graph state' = build_graph example_scope"
    and d: "\<forall>d\<in>set example_scope. \<forall>ws. body_writes d = Some ws \<longrightarrow>
           set ws \<subseteq> effect_set (m_method_written_locations state') (method_ref d)"
    and n: "\<forall>m. \<not> has_resolvable_body example_scope m \<longrightarrow>
           general_memory_barrier \<in> effect_set (m_method_written_locations state') m"
    and r: "\<forall>m m'. (m, m') \<in> (graph_edges (m_method_override_graph state'))\<^sup>* \<longrightarrow>
           effect_set (m_method_written_locations state') m'
             \<subseteq> effect_set (m_method_written_locations state') m"
    by (elim exE conjE) (rule that)
  from d have "set [CseLocation_of_field 4096] \<subseteq> effect_set (m_method_written_locations state') 3"
    by (simp add: example_scope_def)
  then have 3: "CseLocation_of_field 4096 \<in> effect_set (m_method_written_locations state') 3"
    by simp
  have "\<not> has_resolvable_body example_scope 2"
    by (simp add: has_resolvable_body_def example_scope_def)
  with n have 2: "general_memory_barrier \<in> effect_set (m_method_written_locations state') 2"
    by blast
  have "(1, 2) \<in> graph_edges (build_graph example_scope)"
    by (simp add: graph_edges_def children_def build_graph_def example_scope_def)
  then have p2: "(1, 2) \<in> (graph_edges (m_method_override_graph state'))\<^sup>*"
    unfolding g by (rule r_into_rtrancl)
  have p3: "(1, 3) \<in> (graph_edges (m_method_override_graph state'))\<^sup>*"
    unfolding g by (rule example_path)
  from r p3 3 have 13: "CseLocation_of_field 4096 \<in> effect_set (m_method_written_locations state') 1"
    by blast
  from r p2 2 have 12: "general_memory_barrier \<in> effect_set (m_method_written_locations state') 1"
    by blast
  show ?thesis
    by (rule exI [of _ stats], rule exI [of _ state']) (intro conjI i 3 13 2 12)
qed

text \<open>
  The run on the example scope, and on a scope in which method 1 is overridden by a method
  2 that the scope does not hold.
\<close>

lemma init_method_barriers_example:
  "map_option (\<lambda>(stats, state'). (stats, map (m_method_written_locations state') [1, 2, 3, 4]))
     (init_method_barriers (shared_state example_env) example_scope)
   = Some (\<lparr>inlined_barriers_iterations = 2, inlined_barriers_into_methods = 3\<rparr>,
       [Some {CseLocation_of_special ARRAY_COMPONENT_TYPE_INT, general_memory_barrier,
              CseLocation_of_field 4096},
        Some {general_memory_barrier, CseLocation_of_field 4096},
        Some {CseLocation_of_field 4096}, None])"
  by code_simp

lemma init_method_barriers_missing_override:
  "map_option (\<lambda>(stats, state'). map (effect_set (m_method_written_locations state')) [1, 2, 3])
     (init_method_barriers (shared_state example_env)
        [\<lparr>method_ref = 1, body_writes = Some [], overridden_by = [2]\<rparr>,
         \<lparr>method_ref = 3, body_writes = Some [CseLocation_of_field 4096], overridden_by = []\<rparr>])
   = Some [{general_memory_barrier}, {general_memory_barrier}, {CseLocation_of_field 4096}]"
  by code_simp


section \<open>Properties of \<open>get_relevant_written_location\<close>\<close>

text \<open>
  What the effect analysis leaves for a method with no resolvable body.
\<close>

lemma init_state_unresolvable:
  assumes i: "init_method_barriers state0 scope = Some (stats, st)"
    and b: "\<not> has_resolvable_body scope c"
  shows "c \<notin> m_pure_methods st \<and> c \<notin> m_safe_methods st
         \<and> general_memory_barrier \<in> effect_set (m_method_written_locations st) c"
proof -
  from init_method_barriers_result [of state0 scope] obtain stats' E where
    i': "init_method_barriers state0 scope = Some (stats', publish state0 scope E)"
    and W: "effect_set (m_method_written_locations (publish state0 scope E)) = E"
    and gr: "\<forall>m. own_writes scope m \<subseteq> E m"
    by (elim exE conjE) (rule that)
  from i i' have st: "st = publish state0 scope E" by simp
  from b have "general_memory_barrier \<in> own_writes scope c" by (rule own_writes_unresolvable)
  with gr have "general_memory_barrier \<in> E c" by blast
  then have "general_memory_barrier \<in> effect_set (m_method_written_locations st) c"
    unfolding st W .
  moreover from b have "c \<notin> m_pure_methods st \<and> c \<notin> m_safe_methods st"
    unfolding st by (simp add: publish_def)
  ultimately show ?thesis by simp
qed

lemma query_target_not_found:
  assumes "kind i = Invoke m" and "callee_of rslv m ex = Inl e"
  shows "get_relevant_written_location st rslv i ex reads = Inr (Some general_memory_barrier)"
  using assms by (simp add: get_relevant_written_location_def)

lemma query_maximally_unsafe:
  assumes "kind i = Invoke m" and "callee_of rslv m ex = Inr c"
    and "c \<notin> m_pure_methods st" and "c \<notin> m_safe_methods st"
    and "general_memory_barrier \<in> effect_set (m_method_written_locations st) c"
  shows "get_relevant_written_location st rslv i ex reads = Inr (Some general_memory_barrier)"
  using assms
  by (cases ex) (simp_all add: get_relevant_written_location_def classify_def consult_effects_def)

text \<open>
  An instruction for which the query answers with the general barrier is not forwarded,
  and it leaves no entry that depends on a Location.
\<close>

lemma general_barrier_step:
  assumes mw: "may_write_memory env i"
    and q: "get_relevant_written_location (shared_state env) (resolve_exact env) i
              (exact_scope_at env (ident i)) (tracked_locations (table s))
            = Inr (Some general_memory_barrier)"
  shows "forwards (process_insn env i s) = forwards s
         \<and> (\<forall>x\<in>set (table (process_insn env i s)). depends (snd x) = [])"
proof -
  from mw have nf: "\<not> is_forwardable env i" using forwardable_not_barrier by blast
  then have "forwards (process_insn env i s) = forwards s"
    by (simp add: process_insn_def forwarding_check_def)
  moreover have "\<forall>x\<in>set (table (process_insn env i s)). depends (snd x) = []"
    using barrier_step_table [OF mw, of s] q by (simp add: depends_on_general)
  ultimately show ?thesis by simp
qed

text \<open>
  C5: on the shared state that the effect analysis leaves,
  \<open>get_relevant_written_location\<close> never answers with an error; for an instruction that
  invokes a method whose target cannot be found, or a method with no resolvable body
  (native, abstract, or missing from the scope), it answers with the general-barrier
  Location; such a method is in neither the pure nor the safe set; the scan then records
  no \<open>Forward\<close> for the invoke and keeps no entry that depends on a Location; and the
  query answers none only when no Location the instruction writes is the general barrier
  or among the given read locations.
\<close>

theorem unresolved_invoke_is_general_barrier:
  assumes init: "init_method_barriers state0 scope = Some (stats, st)"
  shows "(\<exists>answer. get_relevant_written_location st rslv i ex reads = Inr answer)
     \<and> (kind i = Invoke m
          \<and> (callee_of rslv m ex = Inl e
              \<or> (callee_of rslv m ex = Inr c \<and> \<not> has_resolvable_body scope c))
          \<longrightarrow> get_relevant_written_location st rslv i ex reads = Inr (Some general_memory_barrier))
     \<and> (\<not> has_resolvable_body scope c \<longrightarrow>
           c \<notin> m_pure_methods st \<and> c \<notin> m_safe_methods st \<and> classify st c = Unresolved)
     \<and> (kind i = Invoke m \<and> shared_state env = st
          \<and> (callee_of (resolve_exact env) m (exact_scope_at env (ident i)) = Inl e
              \<or> (callee_of (resolve_exact env) m (exact_scope_at env (ident i)) = Inr c
                  \<and> \<not> has_resolvable_body scope c))
          \<longrightarrow> forwards (process_insn env i s) = forwards s
              \<and> (\<forall>x\<in>set (table (process_insn env i s)). depends (snd x) = []))
     \<and> (get_relevant_written_location st rslv i ex reads = Inr None \<longrightarrow>
           (\<forall>L. writes_location st rslv i ex L \<longrightarrow> L \<notin> reads \<and> L \<noteq> general_memory_barrier))"
proof -
  have 1: "\<exists>answer. get_relevant_written_location st rslv i ex reads = Inr answer"
    by (rule query_never_fails)
  have q: "get_relevant_written_location st rslv' i ex' reads' = Inr (Some general_memory_barrier)"
    if k: "kind i = Invoke m"
      and u: "callee_of rslv' m ex' = Inl e
              \<or> (callee_of rslv' m ex' = Inr c \<and> \<not> has_resolvable_body scope c)"
    for rslv' ex' reads'
    using u
  proof
    assume "callee_of rslv' m ex' = Inl e"
    with k show ?thesis by (rule query_target_not_found)
  next
    assume a: "callee_of rslv' m ex' = Inr c \<and> \<not> has_resolvable_body scope c"
    from init_state_unresolvable [OF init, of c] a
    have "c \<notin> m_pure_methods st" "c \<notin> m_safe_methods st"
      "general_memory_barrier \<in> effect_set (m_method_written_locations st) c"
      by simp_all
    with k a show ?thesis using query_maximally_unsafe by blast
  qed
  have 2: "kind i = Invoke m
          \<and> (callee_of rslv m ex = Inl e
              \<or> (callee_of rslv m ex = Inr c \<and> \<not> has_resolvable_body scope c))
          \<longrightarrow> get_relevant_written_location st rslv i ex reads = Inr (Some general_memory_barrier)"
    using q by blast
  have 3: "\<not> has_resolvable_body scope c \<longrightarrow>
           c \<notin> m_pure_methods st \<and> c \<notin> m_safe_methods st \<and> classify st c = Unresolved"
    using init_state_unresolvable [OF init, of c] by (simp add: classify_def)
  have 4: "kind i = Invoke m \<and> shared_state env = st
          \<and> (callee_of (resolve_exact env) m (exact_scope_at env (ident i)) = Inl e
              \<or> (callee_of (resolve_exact env) m (exact_scope_at env (ident i)) = Inr c
                  \<and> \<not> has_resolvable_body scope c))
          \<longrightarrow> forwards (process_insn env i s) = forwards s
              \<and> (\<forall>x\<in>set (table (process_insn env i s)). depends (snd x) = [])"
  proof (intro impI, elim conjE)
    assume k: "kind i = Invoke m" and e: "shared_state env = st"
      and u: "callee_of (resolve_exact env) m (exact_scope_at env (ident i)) = Inl e
              \<or> (callee_of (resolve_exact env) m (exact_scope_at env (ident i)) = Inr c
                  \<and> \<not> has_resolvable_body scope c)"
    from q [OF k u] e
    have qq: "get_relevant_written_location (shared_state env) (resolve_exact env) i
              (exact_scope_at env (ident i)) (tracked_locations (table s))
            = Inr (Some general_memory_barrier)"
      by simp
    have "env_invoke_class env i m \<noteq> Pure"
      using u 3 e init_state_unresolvable [OF init, of c]
      by (auto simp: env_invoke_class_def invoke_class_def classify_def)
    with k have mw: "may_write_memory env i" by (simp add: may_write_memory_def)
    from general_barrier_step [OF mw qq]
    show "forwards (process_insn env i s) = forwards s
              \<and> (\<forall>x\<in>set (table (process_insn env i s)). depends (snd x) = [])" .
  qed
  have 5: "get_relevant_written_location st rslv i ex reads = Inr None \<longrightarrow>
           (\<forall>L. writes_location st rslv i ex L \<longrightarrow> L \<notin> reads \<and> L \<noteq> general_memory_barrier)"
    using query_None_writes by blast
  from 1 2 3 4 5 show ?thesis by (intro conjI)
qed

theorem unresolved_invoke_is_general_barrier_witness:
  "\<exists>stats st.
     init_method_barriers
       \<lparr>m_pure_methods = {2, 9}, m_safe_methods = {2}, m_barriers = Map.empty,
        m_method_written_locations = Map.empty, m_method_override_graph = []\<rparr>
       example_scope = Some (stats, st)
   \<and> get_relevant_written_location st (\<lambda>t m. None)
        \<lparr>ident = 1, insn_opcode = 110, kind = Invoke 2, srcs = [0]\<rparr> None {}
      = Inr (Some general_memory_barrier)
   \<and> get_relevant_written_location st (\<lambda>t m. None)
        \<lparr>ident = 1, insn_opcode = 110, kind = Invoke 9, srcs = [0]\<rparr> None {}
      = Inr (Some general_memory_barrier)
   \<and> get_relevant_written_location st (\<lambda>t m. None)
        \<lparr>ident = 1, insn_opcode = 110, kind = Invoke 3, srcs = [0]\<rparr> (Some 5) {}
      = Inr (Some general_memory_barrier)
   \<and> 2 \<notin> m_pure_methods st \<and> 2 \<notin> m_safe_methods st \<and> classify st 2 = Unresolved
   \<and> 9 \<notin> m_pure_methods st"
proof -
  let ?state0 = "\<lparr>m_pure_methods = {2, 9}, m_safe_methods = {2}, m_barriers = Map.empty,
        m_method_written_locations = Map.empty, m_method_override_graph = []\<rparr>"
  from init_method_barriers_result [of ?state0 example_scope] obtain stats E where
    i: "init_method_barriers ?state0 example_scope = Some (stats, publish ?state0 example_scope E)"
    by (elim exE conjE) (rule that)
  let ?st = "publish ?state0 example_scope E"
  have b2: "\<not> has_resolvable_body example_scope 2" and b9: "\<not> has_resolvable_body example_scope 9"
    by (simp_all add: has_resolvable_body_def example_scope_def)
  from unresolved_invoke_is_general_barrier [OF i, of "\<lambda>t m. None"
      "\<lparr>ident = 1, insn_opcode = 110, kind = Invoke 2, srcs = [0]\<rparr>" None "{}" 2 Target_not_found 2]
    b2
  have 2: "get_relevant_written_location ?st (\<lambda>t m. None)
        \<lparr>ident = 1, insn_opcode = 110, kind = Invoke 2, srcs = [0]\<rparr> None {}
      = Inr (Some general_memory_barrier)
      \<and> 2 \<notin> m_pure_methods ?st \<and> 2 \<notin> m_safe_methods ?st \<and> classify ?st 2 = Unresolved"
    by (simp add: callee_of_def)
  from unresolved_invoke_is_general_barrier [OF i, of "\<lambda>t m. None"
      "\<lparr>ident = 1, insn_opcode = 110, kind = Invoke 9, srcs = [0]\<rparr>" None "{}" 9 Target_not_found 9]
    b9
  have 9: "get_relevant_written_location ?st (\<lambda>t m. None)
        \<lparr>ident = 1, insn_opcode = 110, kind = Invoke 9, srcs = [0]\<rparr> None {}
      = Inr (Some general_memory_barrier) \<and> 9 \<notin> m_pure_methods ?st"
    by (simp add: callee_of_def)
  from unresolved_invoke_is_general_barrier [OF i, of "\<lambda>t m. None"
      "\<lparr>ident = 1, insn_opcode = 110, kind = Invoke 3, srcs = [0]\<rparr>" "Some 5" "{}" 3 Target_not_found 3]
  have 3: "get_relevant_written_location ?st (\<lambda>t m. None)
        \<lparr>ident = 1, insn_opcode = 110, kind = Invoke 3, srcs = [0]\<rparr> (Some 5) {}
      = Inr (Some general_memory_barrier)"
    by (simp add: callee_of_def)
  show ?thesis
    by (rule exI [of _ stats], rule exI [of _ ?st]) (use i 2 9 3 in simp)
qed


section \<open>Re-running the analysis on a patched method\<close>


















lemmas scan_eval =
  CommonSubexpressionElimination_def scan_block_def process_insn_def forwarding_check_def
  barrier_check_def barrier_location_def may_write_memory_def is_forwardable_def
  entry_table_def signature_of_def new_entry_def value_identity_def
  patch_def patch_block_def patch_insn_def rewrite_consumer_def


lemma example_patched:
  "m_cfg (snd (patch (CommonSubexpressionElimination example_env example_cfg) example_check False))
   = [\<lparr>block_id = 0, preds = [],
       insns = [\<lparr>ident = 1, insn_opcode = 82, kind = FieldRead 4096, srcs = [0]\<rparr>,
                \<lparr>ident = 3, insn_opcode = 144, kind = Arithmetic, srcs = [1, 1]\<rparr>]\<rparr>]"
  by (simp add: scan_eval example_cfg_def example_env_def)


text \<open>
  The first runs on the loop and on the block with a shared instruction object.
\<close>

lemma example_loop_first_run:
  "m_forward (CommonSubexpressionElimination example_env example_loop_cfg)
   = [\<lparr>earlier_insn = 2, insn = 3\<rparr>]"
  by (simp add: scan_eval query_eval example_loop_cfg_def example_env_def)

lemma example_shared_insn_first_run:
  "m_forward (CommonSubexpressionElimination example_env example_shared_insn_cfg)
   = [\<lparr>earlier_insn = 3, insn = 5\<rparr>]"
  by (simp add: scan_eval query_eval example_shared_insn_cfg_def example_env_def)

text \<open>
  The loop has distinct instruction objects and an operand carried around it; the block
  with the shared instruction object has every operand produced earlier or by none.
\<close>

lemma example_loop_cfg_shape:
  "distinct (map ident (all_insns example_loop_cfg))
   \<and> \<not> operands_before_use (all_insns example_loop_cfg)"
  by (simp add: all_insns_def example_loop_cfg_def)

lemma example_shared_insn_cfg_shape:
  "operands_before_use (all_insns example_shared_insn_cfg)
   \<and> \<not> distinct (map ident (all_insns example_shared_insn_cfg))"
  by (simp add: all_insns_def example_shared_insn_cfg_def)


end
